theory Spec2Isabelle
  imports Main "HOL-Library.Word" "HOL-Library.Sublist"
begin

section \<open>Strings of the host language\<close>

text \<open>
  The plugin is TypeScript. A string is a sequence of 16-bit code units, and every
  string operation the plugin uses (\<^verbatim>\<open>length\<close>, \<^verbatim>\<open>slice\<close>, \<^verbatim>\<open>substring\<close>, \<^verbatim>\<open>trim\<close>,
  \<^verbatim>\<open>split\<close>, \<^verbatim>\<open>includes\<close>, regular-expression matching without the \<^verbatim>\<open>u\<close> flag) works on
  code units. Literals are written as HOL strings and injected with \<open>js\<close>.
\<close>

type_synonym jschar = "16 word"
type_synonym jsstring = "jschar list"

definition js :: "string \<Rightarrow> jsstring" where
  "js s = map of_char s"

text \<open>
  \<^verbatim>\<open>String.prototype.trim\<close> removes the code units of WhiteSpace and LineTerminator
  from both ends: TAB, LF, VT, FF, CR, SP, NBSP, U+1680, U+2000..U+200A, U+2028, U+2029,
  U+202F, U+205F, U+3000 and U+FEFF.
\<close>

definition is_white_space :: "jschar \<Rightarrow> bool" where
  "is_white_space c =
     (c = 0x09 \<or> c = 0x0A \<or> c = 0x0B \<or> c = 0x0C \<or> c = 0x0D \<or> c = 0x20 \<or> c = 0xA0
      \<or> c = 0x1680 \<or> (0x2000 \<le> c \<and> c \<le> 0x200A) \<or> c = 0x2028 \<or> c = 0x2029
      \<or> c = 0x202F \<or> c = 0x205F \<or> c = 0x3000 \<or> c = 0xFEFF)"

definition trim :: "jsstring \<Rightarrow> jsstring" where
  "trim s = rev (dropWhile is_white_space (rev (dropWhile is_white_space s)))"

text \<open>
  \<^verbatim>\<open>s.slice(a)\<close>: a negative start counts from the end, and the start is clamped to
  the string. \<^verbatim>\<open>s.substring(a, b)\<close>: both arguments are clamped to the string and
  swapped when out of order; \<^verbatim>\<open>s.substring(a)\<close> runs to the end of the string.
\<close>

definition slice :: "jsstring \<Rightarrow> int \<Rightarrow> jsstring" where
  "slice s a =
     (let len = int (length s);
          from = (if a < 0 then max (len + a) 0 else min a len)
      in drop (nat from) s)"

definition substring :: "jsstring \<Rightarrow> int \<Rightarrow> int \<Rightarrow> jsstring" where
  "substring s a b =
     (let len = int (length s);
          fa = min (max a 0) len;
          fb = min (max b 0) len;
          from = min fa fb;
          to = max fa fb
      in take (nat (to - from)) (drop (nat from) s))"

definition substring_from :: "jsstring \<Rightarrow> int \<Rightarrow> jsstring" where
  "substring_from s a = substring s a (int (length s))"

text \<open>
  \<^verbatim>\<open>s.split(sep)\<close> with a string separator: the string is cut at the occurrences of the
  separator found from left to right, each search resuming after the previous occurrence;
  the pieces between them are returned, so a string with no occurrence (the empty string
  too) gives one piece. With the empty separator the pieces are the single code units.
\<close>

fun split_at :: "jsstring \<Rightarrow> jsstring \<Rightarrow> jsstring \<Rightarrow> jsstring list" where
  "split_at sep cur [] = [cur]"
| "split_at sep cur (c # cs) =
     (if prefix sep (c # cs) then cur # split_at sep [] (drop (length sep - 1) cs)
      else split_at sep (cur @ [c]) cs)"

definition split :: "jsstring \<Rightarrow> jsstring \<Rightarrow> jsstring list" where
  "split s sep = (if sep = [] then map (\<lambda>c. [c]) s else split_at sep [] s)"

text \<open>\<^verbatim>\<open>s.includes(q)\<close>: \<open>q\<close> occurs in \<open>s\<close> as a run of consecutive code units.\<close>

fun includes_str :: "jsstring \<Rightarrow> jsstring \<Rightarrow> bool" where
  "includes_str [] q = (q = [])"
| "includes_str (c # cs) q = (prefix q (c # cs) \<or> includes_str cs q)"

section \<open>Regular expressions\<close>

text \<open>
  The three patterns of the plugin are sequences of single-character items, each with no
  quantifier, with \<^verbatim>\<open>?\<close> or with \<^verbatim>\<open>+\<close>. An item is a literal character, \<^verbatim>\<open>\d\<close> (an
  ASCII digit) or \<^verbatim>\<open>.\<close> (any code unit but the line terminators LF, CR, U+2028 and
  U+2029; the patterns are compiled without the \<^verbatim>\<open>s\<close> and \<^verbatim>\<open>u\<close> flags). A pattern string
  is represented by the sequence of its items.
\<close>

datatype charclass = Lit jschar | Digit | AnyChar

datatype quant = One | Opt | Plus

type_synonym pattern = "(charclass \<times> quant) list"

fun accepts :: "charclass \<Rightarrow> jschar \<Rightarrow> bool" where
  "accepts (Lit c) x = (x = c)"
| "accepts Digit x = (0x30 \<le> x \<and> x \<le> 0x39)"
| "accepts AnyChar x = (x \<noteq> 0x0A \<and> x \<noteq> 0x0D \<and> x \<noteq> 0x2028 \<and> x \<noteq> 0x2029)"

definition lits :: "string \<Rightarrow> pattern" where
  "lits s = map (\<lambda>c. (Lit (of_char c), One)) s"

text \<open>
  The backtracking matcher of the language, at a fixed start: the items are tried in order,
  a quantified item first takes as much as it can (the quantifiers are greedy) and gives
  back when the rest of the pattern fails. The result is the length of the match.
\<close>

fun match_here :: "pattern \<Rightarrow> jsstring \<Rightarrow> nat option" where
  "match_here [] s = Some 0"
| "match_here ((c, One) # p) [] = None"
| "match_here ((c, One) # p) (x # xs) =
     (if accepts c x then map_option Suc (match_here p xs) else None)"
| "match_here ((c, Opt) # p) [] = match_here p []"
| "match_here ((c, Opt) # p) (x # xs) =
     (if accepts c x then
        (case match_here p xs of
           Some n \<Rightarrow> Some (Suc n)
         | None \<Rightarrow> match_here p (x # xs))
      else match_here p (x # xs))"
| "match_here ((c, Plus) # p) [] = None"
| "match_here ((c, Plus) # p) (x # xs) =
     (if accepts c x then
        (case match_here ((c, Plus) # p) xs of
           Some n \<Rightarrow> Some (Suc n)
         | None \<Rightarrow> map_option Suc (match_here p xs))
      else None)"

text \<open>
  The search of \<^verbatim>\<open>exec\<close>: the start positions are tried from \<open>i\<close> on, up to and
  including the end of the input; \<open>s\<close> is the input from position \<open>i\<close>. The result is the
  start and the length of the first match.
\<close>

fun scan :: "pattern \<Rightarrow> jsstring \<Rightarrow> nat \<Rightarrow> (nat \<times> nat) option" where
  "scan p [] i = (case match_here p [] of Some n \<Rightarrow> Some (i, n) | None \<Rightarrow> None)"
| "scan p (x # xs) i =
     (case match_here p (x # xs) of Some n \<Rightarrow> Some (i, n) | None \<Rightarrow> scan p xs (Suc i))"

text \<open>
  A \<^verbatim>\<open>RegExp\<close> object with the \<^verbatim>\<open>g\<close> flag carries its pattern and the mutable
  \<^verbatim>\<open>lastIndex\<close>. \<^verbatim>\<open>exec\<close> searches from \<^verbatim>\<open>lastIndex\<close>; on success it returns the matched
  text and moves \<^verbatim>\<open>lastIndex\<close> to the end of the match, on failure it returns null and
  resets \<^verbatim>\<open>lastIndex\<close> to 0. The object after the call is returned with the result.
\<close>

record RegExp =
  source :: pattern
  lastIndex :: nat

definition new_RegExp :: "pattern \<Rightarrow> RegExp" where
  "new_RegExp pattern = \<lparr>source = pattern, lastIndex = 0\<rparr>"

definition exec :: "RegExp \<Rightarrow> jsstring \<Rightarrow> jsstring option \<times> RegExp" where
  "exec regex input =
     (if lastIndex regex > length input then (None, regex\<lparr>lastIndex := 0\<rparr>)
      else
        (case scan (source regex) (drop (lastIndex regex) input) (lastIndex regex) of
           None \<Rightarrow> (None, regex\<lparr>lastIndex := 0\<rparr>)
         | Some (i, n) \<Rightarrow> (Some (take n (drop i input)), regex\<lparr>lastIndex := i + n\<rparr>)))"

section \<open>What a pattern matches\<close>

text \<open>
  The strings a pattern matches in full, stated without reference to the search order:
  \<open>matches p w\<close>. An occurrence of \<open>p\<close> in \<open>s\<close> is a start \<open>i\<close> and a length \<open>n\<close> such that
  the \<open>n\<close> code units of \<open>s\<close> from \<open>i\<close> are matched by \<open>p\<close>.
\<close>

inductive matches :: "pattern \<Rightarrow> jsstring \<Rightarrow> bool" where
  m_nil: "matches [] []"
| m_one: "accepts c x \<Longrightarrow> matches p w \<Longrightarrow> matches ((c, One) # p) (x # w)"
| m_opt_skip: "matches p w \<Longrightarrow> matches ((c, Opt) # p) w"
| m_opt_take: "accepts c x \<Longrightarrow> matches p w \<Longrightarrow> matches ((c, Opt) # p) (x # w)"
| m_plus_last: "accepts c x \<Longrightarrow> matches p w \<Longrightarrow> matches ((c, Plus) # p) (x # w)"
| m_plus_more:
    "accepts c x \<Longrightarrow> matches ((c, Plus) # p) w \<Longrightarrow> matches ((c, Plus) # p) (x # w)"

definition occurs :: "pattern \<Rightarrow> jsstring \<Rightarrow> nat \<Rightarrow> nat \<Rightarrow> bool" where
  "occurs p s i n = (i + n \<le> length s \<and> matches p (take n (drop i s)))"

text \<open>The least number of code units a match of the pattern has.\<close>

fun min_len :: "pattern \<Rightarrow> nat" where
  "min_len [] = 0"
| "min_len ((c, Opt) # p) = min_len p"
| "min_len ((c, One) # p) = Suc (min_len p)"
| "min_len ((c, Plus) # p) = Suc (min_len p)"

subsection \<open>The matcher finds what the pattern matches\<close>

lemma match_here_sound:
  "match_here p s = Some n \<Longrightarrow> n \<le> length s \<and> matches p (take n s)"
proof (induction p s arbitrary: n rule: match_here.induct)
  case (1 s)
  then show ?case by (simp add: m_nil)
next
  case (2 c p)
  then show ?case by simp
next
  case (3 c p x xs)
  then show ?case by (auto split: if_splits intro: m_one)
next
  case (4 c p)
  then show ?case by (auto intro: m_opt_skip)
next
  case (5 c p x xs)
  then show ?case
    by (auto split: if_splits option.splits intro: m_opt_skip m_opt_take)
next
  case (6 c p)
  then show ?case by simp
next
  case (7 c p x xs)
  then show ?case
    by (auto split: if_splits option.splits intro: m_plus_last m_plus_more)
qed

lemma match_here_complete:
  "matches p w \<Longrightarrow> match_here p (w @ r) \<noteq> None"
proof (induction arbitrary: r rule: matches.induct)
  case m_nil
  then show ?case by simp
next
  case (m_one c x p w)
  then show ?case by simp
next
  case (m_opt_skip p w c)
  have "match_here p (w @ r) \<noteq> None" by (rule m_opt_skip.IH)
  then show ?case by (cases "w @ r") (auto split: option.splits)
next
  case (m_opt_take c x p w)
  from m_opt_take.IH[of r] m_opt_take.hyps(1) show ?case by (auto split: option.splits)
next
  case (m_plus_last c x p w)
  from m_plus_last.IH[of r] m_plus_last.hyps(1) show ?case by (auto split: option.splits)
next
  case (m_plus_more c x p w)
  from m_plus_more.IH[of r] m_plus_more.hyps(1) show ?case by (auto split: option.splits)
qed

lemma match_here_None_iff:
  "match_here p s = None \<longleftrightarrow> (\<forall>n\<le>length s. \<not> matches p (take n s))"
proof
  assume none: "match_here p s = None"
  show "\<forall>n\<le>length s. \<not> matches p (take n s)"
  proof (intro allI impI notI)
    fix n assume "n \<le> length s" "matches p (take n s)"
    then have "match_here p (take n s @ drop n s) \<noteq> None"
      using match_here_complete by blast
    with none show False by simp
  qed
next
  assume a: "\<forall>n\<le>length s. \<not> matches p (take n s)"
  show "match_here p s = None"
  proof (cases "match_here p s")
    case None then show ?thesis .
  next
    case (Some n)
    with match_here_sound a show ?thesis by blast
  qed
qed

lemma scan_Some:
  "scan p s i = Some (k, n) \<Longrightarrow>
     \<exists>j. k = i + j \<and> occurs p s j n \<and> (\<forall>j'<j. \<forall>m. \<not> occurs p s j' m)"
proof (induction s arbitrary: i)
  case Nil
  then show ?case
    by (auto simp: occurs_def split: option.splits dest: match_here_sound)
next
  case (Cons x xs)
  show ?case
  proof (cases "match_here p (x # xs)")
    case (Some n')
    with Cons.prems have "k = i" "n' = n" by auto
    with Some match_here_sound[OF Some] show ?thesis
      by (intro exI[of _ 0]) (simp add: occurs_def)
  next
    case None
    with Cons.prems have "scan p xs (Suc i) = Some (k, n)" by simp
    from Cons.IH[OF this] obtain j where j: "k = Suc i + j" "occurs p xs j n"
      "\<forall>j'<j. \<forall>m. \<not> occurs p xs j' m" by blast
    have no0: "\<not> occurs p (x # xs) 0 m" for m
      using None by (auto simp: occurs_def match_here_None_iff)
    have "\<not> occurs p (x # xs) j' m" if "j' < Suc j" for j' m
      using that no0 j(3) by (cases j') (auto simp: occurs_def)
    with j(1,2) show ?thesis
      by (intro exI[of _ "Suc j"]) (auto simp: occurs_def)
  qed
qed

lemma scan_None:
  "scan p s i = None \<Longrightarrow> \<not> occurs p s j m"
proof (induction s arbitrary: i j)
  case Nil
  then show ?case
    by (auto simp: occurs_def match_here_None_iff split: option.splits)
next
  case (Cons x xs)
  from Cons.prems have n: "match_here p (x # xs) = None" and s: "scan p xs (Suc i) = None"
    by (auto split: option.splits)
  show ?case
  proof (cases j)
    case 0
    with n show ?thesis by (auto simp: occurs_def match_here_None_iff)
  next
    case (Suc j')
    with Cons.IH[OF s, of j'] show ?thesis by (simp add: occurs_def)
  qed
qed

lemma scan_None_iff: "scan p s i = None \<longleftrightarrow> (\<forall>j m. \<not> occurs p s j m)"
proof
  assume "scan p s i = None"
  then show "\<forall>j m. \<not> occurs p s j m" using scan_None by blast
next
  assume a: "\<forall>j m. \<not> occurs p s j m"
  show "scan p s i = None"
  proof (cases "scan p s i")
    case None then show ?thesis .
  next
    case (Some r)
    then obtain k n where "scan p s i = Some (k, n)" by (cases r) auto
    from scan_Some[OF this] a show ?thesis by blast
  qed
qed

lemma matches_min_len: "matches p w \<Longrightarrow> min_len p \<le> length w"
  by (induction rule: matches.induct) auto

section \<open>The plugin\<close>

text \<open>
  \<^verbatim>\<open>definitionFoundPattern = `\\d+ definitions? found\\n\\n`\<close>,
  \<^verbatim>\<open>noDefinitionPattern = `No definitions found for ".+", perhaps you mean:\\n.+:  `\<close>,
  \<^verbatim>\<open>definitionSourcePattern = `From .+:\\n\\n`\<close>.
\<close>

definition definitionFoundPattern :: pattern where
  "definitionFoundPattern =
     [(Digit, Plus)] @ lits '' definition'' @ [(Lit (of_char CHR ''s''), Opt)]
       @ lits '' found\<newline>\<newline>''"

definition noDefinitionPattern :: pattern where
  "noDefinitionPattern =
     lits ''No definitions found for \"'' @ [(AnyChar, Plus)]
       @ lits ''\", perhaps you mean:\<newline>'' @ [(AnyChar, Plus)] @ lits '':  ''"

definition definitionSourcePattern :: pattern where
  "definitionSourcePattern = lits ''From '' @ [(AnyChar, Plus)] @ lits '':\<newline>\<newline>''"

text \<open>
  \<^verbatim>\<open>getNextMatchBounds\<close>: a new \<^verbatim>\<open>RegExp\<close> object is made at every call, \<^verbatim>\<open>exec\<close> is
  called once on it and the object is dropped. The bounds are
  \<^verbatim>\<open>[regex.lastIndex - matchFound[0].length, regex.lastIndex]\<close>, numbers of the language.
\<close>

definition getNextMatchBounds :: "pattern \<Rightarrow> jsstring \<Rightarrow> (int \<times> int) option" where
  "getNextMatchBounds pattern input =
     (let regex = new_RegExp pattern;
          (matchFound, regex') = exec regex input
      in case matchFound of
           None \<Rightarrow> None
         | Some m \<Rightarrow> Some (int (lastIndex regex') - int (length m), int (lastIndex regex')))"

lemma getNextMatchBounds_Some:
  "getNextMatchBounds p s = Some (a, b) \<Longrightarrow>
     \<exists>i n. a = int i \<and> b = int (i + n) \<and> occurs p s i n \<and> (\<forall>j<i. \<forall>m. \<not> occurs p s j m)"
  unfolding getNextMatchBounds_def new_RegExp_def exec_def
  by (auto simp: Let_def split: option.splits dest!: scan_Some simp: occurs_def)

lemma getNextMatchBounds_None:
  "getNextMatchBounds p s = None \<longleftrightarrow> (\<forall>j m. \<not> occurs p s j m)"
proof -
  have "getNextMatchBounds p s = None \<longleftrightarrow> scan p s 0 = None"
    unfolding getNextMatchBounds_def new_RegExp_def exec_def
    by (auto simp: Let_def split: option.splits)
  then show ?thesis by (simp add: scan_None_iff)
qed

lemma min_len_source: "min_len definitionSourcePattern = 9"
  by (simp add: definitionSourcePattern_def lits_def)

lemma min_len_found: "min_len definitionFoundPattern = 20"
  by (simp add: definitionFoundPattern_def lits_def)

lemma substring_take: "0 \<le> a \<Longrightarrow> a \<le> int (length s) \<Longrightarrow> substring s 0 a = take (nat a) s"
  by (simp add: substring_def Let_def min_def max_def)

lemma substring_from_drop: "0 \<le> b \<Longrightarrow> substring_from s b = drop (nat b) s"
  by (auto simp add: substring_from_def substring_def Let_def min_def max_def)

lemma substring_mid:
  "0 \<le> a \<Longrightarrow> a \<le> b \<Longrightarrow> b \<le> int (length s) \<Longrightarrow>
     substring s a b = take (nat (b - a)) (drop (nat a) s)"
  by (simp add: substring_def Let_def min_def max_def)

lemma source_step_shorter:
  assumes "getNextMatchBounds definitionSourcePattern s = Some (a, b)"
  shows "length (substring s 0 a @ substring_from s b) + 9 \<le> length s"
proof -
  from getNextMatchBounds_Some[OF assms] obtain i n where
    ab: "a = int i" "b = int (i + n)" and occ: "occurs definitionSourcePattern s i n"
    by blast
  from occ have le: "i + n \<le> length s"
    and m: "matches definitionSourcePattern (take n (drop i s))"
    by (simp_all add: occurs_def)
  from matches_min_len[OF m] le have "9 \<le> n" by (simp add: min_len_source)
  with le ab show ?thesis
    by (simp add: substring_take substring_from_drop)
qed

subsection \<open>Parsing the output of the dictionary\<close>

text \<open>
  The quantity that decreases at every turn of the loop below: nothing when the loop is
  about to stop, else one more than the length of the text after the next removal.
\<close>

definition strip_measure :: "jsstring \<times> (int \<times> int) option \<Rightarrow> nat" where
  "strip_measure = (\<lambda>(d, bs). case bs of
       None \<Rightarrow> 0
     | Some (b0, b1) \<Rightarrow> Suc (length (substring d 0 b0 @ substring_from d b1)))"

lemma strip_loop_decreases:
  assumes "d' = substring d 0 b0 @ substring_from d b1"
  shows "strip_measure (d', getNextMatchBounds definitionSourcePattern d')
           < strip_measure (d, Some (b0, b1))"
proof (cases "getNextMatchBounds definitionSourcePattern d'")
  case None
  then show ?thesis by (simp add: strip_measure_def)
next
  case (Some ab)
  obtain a b where ab: "ab = (a, b)" by (cases ab)
  from source_step_shorter[of d' a b] Some ab
  have "length (substring d' 0 a @ substring_from d' b) < length d'" by simp
  with Some ab assms show ?thesis by (simp add: strip_measure_def)
qed

text \<open>
  The loop of \<^verbatim>\<open>tryParseDefinitions\<close>, on its two variables:
  \<^verbatim>\<open>while (defSourceBounds !== null) {
    definitions = definitions.substring(0, defSourceBounds[0])
                + definitions.substring(defSourceBounds[1]);
    defSourceBounds = this.getNextMatchBounds(this.definitionSourcePattern, definitions); }\<close>
  Its value is \<^verbatim>\<open>definitions\<close> at the exit.
\<close>

function (domintros) strip_loop :: "jsstring \<Rightarrow> (int \<times> int) option \<Rightarrow> jsstring" where
  "strip_loop definitions defSourceBounds =
     (case defSourceBounds of
        None \<Rightarrow> definitions
      | Some (b0, b1) \<Rightarrow>
          (let definitions' = substring definitions 0 b0 @ substring_from definitions b1
           in strip_loop definitions' (getNextMatchBounds definitionSourcePattern definitions')))"
  by pat_completeness auto
termination
  by (relation "measure strip_measure") (auto simp: strip_loop_decreases)

declare strip_loop.simps [simp del]

lemma strip_loop_None [simp]: "strip_loop d None = d"
  by (subst strip_loop.simps) simp

lemma strip_loop_Some:
  "strip_loop d (Some (b0, b1)) =
     strip_loop (substring d 0 b0 @ substring_from d b1)
       (getNextMatchBounds definitionSourcePattern (substring d 0 b0 @ substring_from d b1))"
  by (subst strip_loop.simps) (simp add: Let_def)

text \<open>
  \<^verbatim>\<open>tryParseDefinitions\<close> and \<^verbatim>\<open>tryParseWordSuggestions\<close>; \<open>None\<close> is \<^verbatim>\<open>null\<close>. Their
  \<^verbatim>\<open>console.error\<close> lines are diagnostics and are not part of the model.
\<close>

definition tryParseDefinitions :: "jsstring \<Rightarrow> jsstring option" where
  "tryParseDefinitions text =
     (case getNextMatchBounds definitionFoundPattern text of
        None \<Rightarrow> None
      | Some matchBounds \<Rightarrow>
          (let definitions = trim (slice text (snd matchBounds - 1));
               defSourceBounds = getNextMatchBounds definitionSourcePattern definitions;
               definitions = strip_loop definitions defSourceBounds
           in Some (trim definitions)))"

definition tryParseWordSuggestions :: "jsstring \<Rightarrow> jsstring list option" where
  "tryParseWordSuggestions text =
     (case getNextMatchBounds noDefinitionPattern text of
        None \<Rightarrow> None
      | Some matchBounds \<Rightarrow>
          (let suggestions = split (slice text (snd matchBounds)) (js ''  '')
           in Some suggestions))"

subsection \<open>The plugin's state and its surroundings\<close>

text \<open>
  What the plugin reads and changes: the files by path (\<^verbatim>\<open>fs.existsSync\<close>,
  \<^verbatim>\<open>fs.writeFile\<close>), the writes that were started with \<^verbatim>\<open>fs.writeFile\<close> and are not
  over yet (path, word and text of each), the notices shown to the user
  (\<^verbatim>\<open>new Notice\<close>), the commands run with \<^verbatim>\<open>execSync\<close>, the text put in place of the
  editor's selection, the suggestion picker when one was opened, and the text of the
  status bar.
\<close>

record world =
  files :: "jsstring \<rightharpoonup> jsstring"
  pending :: "(jsstring \<times> jsstring \<times> jsstring) list"
  notices :: "jsstring list"
  commands :: "jsstring list"
  selection :: jsstring
  modal :: "jsstring list option"
  statusBar :: jsstring

record settings =
  wordDir :: jsstring
  dictName :: jsstring

definition DEFAULT_SETTINGS :: settings where
  "DEFAULT_SETTINGS = \<lparr>wordDir = js ''words'', dictName = js ''fd-fra-eng''\<rparr>"

text \<open>
  A run of the external command ends with an exit status, its output and its error
  stream, or has no exit status (the process could not be started, or was killed).
  \<^verbatim>\<open>execSync\<close> returns the output when the status is 0 and throws otherwise; the thrown
  error carries \<^verbatim>\<open>status\<close> and \<^verbatim>\<open>stderr\<close>.
\<close>

datatype proc_result = Exited int jsstring jsstring | NoExit

definition queryCommand :: "settings \<Rightarrow> jsstring \<Rightarrow> jsstring" where
  "queryCommand st query = js ''/opt/homebrew/bin/dict -d '' @ dictName st @ js '' '' @ query"

definition getDictionaryResult ::
  "settings \<Rightarrow> (jsstring \<Rightarrow> proc_result) \<Rightarrow> jsstring \<Rightarrow> world \<Rightarrow> jsstring option \<times> world" where
  "getDictionaryResult st execSync query w =
     (let w' = w\<lparr>commands := commands w @ [queryCommand st query]\<rparr>
      in case execSync (queryCommand st query) of
           Exited status stdout stderr \<Rightarrow>
             if status = 0 then (Some stdout, w')
             else if status = 21 then (Some stderr, w')
             else (None, w')
         | NoExit \<Rightarrow> (None, w'))"

text \<open>
  \<^verbatim>\<open>createWordNote\<close>. \<^verbatim>\<open>fs.writeFile\<close> is asynchronous: the call starts the write and
  returns, and \<open>createWordNote\<close> returns with it, before any file is there. The source
  returns nothing; the branch taken is returned here with the new state.
\<close>

datatype note_result = AlreadyExists | WriteStarted

definition createWordNote ::
  "jsstring \<Rightarrow> jsstring \<Rightarrow> jsstring \<Rightarrow> world \<Rightarrow> note_result \<times> world" where
  "createWordNote path word text w =
     (if files w path \<noteq> None then
        (AlreadyExists,
         w\<lparr>notices := notices w @ [js ''Entry for word '' @ word @ js '' already exists.'']\<rparr>)
      else (WriteStarted, w\<lparr>pending := pending w @ [(path, word, text)]\<rparr>))"

text \<open>
  The end of a write, some time later: the callback given to \<^verbatim>\<open>fs.writeFile\<close> runs. Any
  of the writes under way may be the one that ends (\<open>k\<close> is its place among them). A
  write that succeeds puts its text at the path, in place of what was there, and the
  callback shows the notice. A write that fails leaves the files as they were or leaves
  some content at the path, and the callback only logs the error. Which write ends and
  how is given by the surroundings.
\<close>

datatype write_outcome = WriteOk | WriteErr "jsstring option"

definition writeFile_callback :: "nat \<Rightarrow> write_outcome \<Rightarrow> world \<Rightarrow> world" where
  "writeFile_callback k outcome w =
     (if k < length (pending w) then
        (case pending w ! k of
           (path, word, text) \<Rightarrow>
             (let w' = w\<lparr>pending := take k (pending w) @ drop (Suc k) (pending w)\<rparr>
              in case outcome of
                   WriteOk \<Rightarrow>
                     w'\<lparr>files := (files w')(path \<mapsto> text),
                        notices := notices w' @ [js ''Created a new note for word: '' @ word]\<rparr>
                 | WriteErr left \<Rightarrow>
                     w'\<lparr>files := (case left of
                                     None \<Rightarrow> files w'
                                   | Some c \<Rightarrow> (files w')(path \<mapsto> c))\<rparr>))
      else w)"

text \<open>
  \<^verbatim>\<open>getDirFileCount\<close> returns -1 on every path: the count is computed in the callback of
  \<^verbatim>\<open>readdir\<close>, whose value is dropped. \<^verbatim>\<open>updateStatusBar\<close> therefore always shows the
  notice and \<^verbatim>\<open>N/A\<close>.
\<close>

definition getDirFileCount :: "jsstring \<Rightarrow> int" where
  "getDirFileCount path = - 1"

definition updateStatusBar :: "settings \<Rightarrow> world \<Rightarrow> world" where
  "updateStatusBar st w =
     (if getDirFileCount (wordDir st) = - 1 then
        w\<lparr>notices := notices w
              @ [js ''Error getting word count from configured word directory.''],
          statusBar := js ''Lexicon Words: N/A''\<rparr>
      else w)"

text \<open>
  \<^verbatim>\<open>addWordEntry\<close>, up to the point where it returns: the lookup failed, no suggestions
  were given, the picker was opened on the suggestions, or the note for the definition
  was requested from \<^verbatim>\<open>createWordNote\<close> (a write that it started ends after
  \<^verbatim>\<open>addWordEntry\<close> has returned). \<^verbatim>\<open>!dictResult\<close> holds for \<^verbatim>\<open>null\<close> and for the empty
  string.
\<close>

datatype lookup =
    LookupFailed
  | NoSuggestions
  | DidYouMean "jsstring list"
  | Entry jsstring jsstring note_result

definition couldnt_find :: "jsstring \<Rightarrow> jsstring" where
  "couldnt_find word = js ''Couldn't find word: '' @ word @ js '' in the dictionary.''"

definition addWordEntry ::
  "settings \<Rightarrow> (jsstring \<Rightarrow> proc_result) \<Rightarrow> jsstring \<Rightarrow> world \<Rightarrow> lookup \<times> world" where
  "addWordEntry st execSync word w =
     (let (dictResult, w1) = getDictionaryResult st execSync word w
      in if dictResult = None \<or> dictResult = Some [] then
           (LookupFailed, w1\<lparr>notices := notices w1 @ [couldnt_find word]\<rparr>)
         else
           (case tryParseDefinitions (the dictResult) of
              None \<Rightarrow>
                (let suggestions = tryParseWordSuggestions (the dictResult)
                 in if suggestions = None \<or> length (the suggestions) < 1 then
                      (NoSuggestions, w1\<lparr>notices := notices w1 @ [couldnt_find word]\<rparr>)
                    else
                      (DidYouMean (the suggestions),
                       w1\<lparr>notices := notices w1
                             @ [js ''Couldn't find word: '' @ word
                                  @ js '', did you mean one of these words?''],
                          modal := suggestions\<rparr>))
            | Some definition \<Rightarrow>
                (let wordNotePath = wordDir st @ js ''/'' @ word @ js ''.md'';
                     w2 = w1\<lparr>selection := word\<rparr>;
                     (r, w3) = createWordNote wordNotePath word definition w2
                 in (Entry wordNotePath definition r, updateStatusBar st w3))))"

text \<open>
  The picker: \<^verbatim>\<open>getSuggestions\<close> filters the suggestions by the typed query.
  \<^verbatim>\<open>toLowerCase\<close> is the lower-casing of the language, a function of the Unicode
  tables; the plugin is modelled for any such function. \<open>ascii_lower\<close> is what it does
  on strings of ASCII letters.
\<close>

definition getSuggestions ::
  "(jsstring \<Rightarrow> jsstring) \<Rightarrow> jsstring list \<Rightarrow> jsstring \<Rightarrow> jsstring list" where
  "getSuggestions toLowerCase suggestions query =
     filter (\<lambda>suggestion. includes_str (toLowerCase suggestion) (toLowerCase query))
       suggestions"

definition ascii_lower :: "jsstring \<Rightarrow> jsstring" where
  "ascii_lower s = map (\<lambda>c. if 0x41 \<le> c \<and> c \<le> 0x5A then c + 0x20 else c) s"

section \<open>The words of the specification\<close>

text \<open>A run of one or more code units none of which is a line terminator: what \<^verbatim>\<open>.+\<close> takes.\<close>

definition no_line_break :: "jsstring \<Rightarrow> bool" where
  "no_line_break xs = (xs \<noteq> [] \<and> (\<forall>x\<in>set xs. accepts AnyChar x))"

text \<open>
  A header is a part of a text that the pattern of the source line, \<^verbatim>\<open>From .+:\n\n\<close>,
  matches. A text is free of headers when the pattern occurs nowhere in it. One text
  comes from another by removing headers when it is reached by taking out a header any
  number of times. The text with every header removed exhaustively: the first header is
  taken out until the text is free of headers.
\<close>

definition header_free :: "jsstring \<Rightarrow> bool" where
  "header_free s = (\<forall>i n. \<not> occurs definitionSourcePattern s i n)"

inductive removes_headers :: "jsstring \<Rightarrow> jsstring \<Rightarrow> bool" where
  rh_refl: "removes_headers s s"
| rh_step: "matches definitionSourcePattern h \<Longrightarrow> removes_headers (u @ v) t
              \<Longrightarrow> removes_headers (u @ h @ v) t"

definition headers_removed :: "jsstring \<Rightarrow> jsstring" where
  "headers_removed s = strip_loop s (getNextMatchBounds definitionSourcePattern s)"

text \<open>
  A text that does not stop on the line of a header: it is empty, or its last code unit
  is neither white space nor a colon.
\<close>

definition ends_in_text :: "jsstring \<Rightarrow> bool" where
  "ends_in_text c = (c = [] \<or> (\<not> is_white_space (last c) \<and> last c \<noteq> 0x3A))"

text \<open>
  Putting the pieces back together with the separator between them
  (\<^verbatim>\<open>Array.prototype.join\<close>), to say what a split is.
\<close>

fun join :: "jsstring \<Rightarrow> jsstring list \<Rightarrow> jsstring" where
  "join sep [] = []"
| "join sep [x] = x"
| "join sep (x # y # ys) = x @ sep @ join sep (y # ys)"

section \<open>Examples\<close>

text \<open>A state with no file, no write under way, no notice and no command run yet.\<close>

definition empty_world :: world where
  "empty_world = \<lparr>files = Map.empty, pending = [], notices = [], commands = [],
                   selection = [], modal = None, statusBar = []\<rparr>"

text \<open>
  Scenario A of the specification, an output whose last header has nothing after it,
  and an output that is the marker and one header.
\<close>

definition scenario_A :: jsstring where
  "scenario_A =
     js ''1 definition found\<newline>\<newline>From Test Dict:\<newline>\<newline>cat: a small domestic animal''"

definition trailing_source :: jsstring where
  "trailing_source = js ''1 definition found\<newline>\<newline>From A:\<newline>\<newline>cat\<newline>\<newline>From B:\<newline>\<newline>''"

definition header_only :: jsstring where
  "header_only = js ''1 definition found\<newline>\<newline>From Test Dict:\<newline>\<newline>''"

text \<open>An output with the pattern of the definitions and nothing after it.\<close>

definition empty_body :: jsstring where
  "empty_body = js ''1 definition found\<newline>\<newline>''"

text \<open>An output of the external command when the word is unknown.\<close>

definition not_found_output :: jsstring where
  "not_found_output =
     js ''No definitions found for \"catt\", perhaps you mean:\<newline>wn:  cat  catty  category  ''"

text \<open>Scenario B of the specification: the line of suggestions has no source before it.\<close>

definition scenario_B :: jsstring where
  "scenario_B =
     js ''No definitions found for \"catt\", perhaps you mean:\<newline>cat  catty  category  ''"

text \<open>An output with neither pattern in it.\<close>

definition garbage_output :: jsstring where
  "garbage_output = js ''garbage unrelated text''"

section \<open>Properties\<close>

subsection \<open>The suggestion picker\<close>

lemma includes_str_iff: "includes_str s q \<longleftrightarrow> (\<exists>a b. s = a @ q @ b)"
proof (induction s)
  case Nil
  then show ?case by auto
next
  case (Cons c cs)
  show ?case
  proof
    assume "includes_str (c # cs) q"
    then consider "prefix q (c # cs)" | "includes_str cs q" by auto
    then show "\<exists>a b. c # cs = a @ q @ b"
    proof cases
      case 1
      then obtain b where "c # cs = q @ b" by (auto simp: prefix_def)
      then have "c # cs = [] @ q @ b" by simp
      then show ?thesis by blast
    next
      case 2
      with Cons.IH obtain a b where "cs = a @ q @ b" by blast
      then have "c # cs = (c # a) @ q @ b" by simp
      then show ?thesis by blast
    qed
  next
    assume "\<exists>a b. c # cs = a @ q @ b"
    then obtain a b where ab: "c # cs = a @ q @ b" by blast
    show "includes_str (c # cs) q"
    proof (cases a)
      case Nil
      with ab have "prefix q (c # cs)" by (simp add: prefix_def)
      then show ?thesis by simp
    next
      case (Cons x a')
      with ab have "cs = a' @ q @ b" by simp
      with Cons.IH show ?thesis by auto
    qed
  qed
qed

text \<open>
  C7. For every suggestion list and every query typed in the picker, \<open>getSuggestions\<close>
  returns exactly the suggestions whose lower-cased text contains the lower-cased query
  as a run of consecutive code units, in their original order. The query is compared
  code unit by code unit and is never made into a pattern: no function of the section on
  regular expressions takes part, so a query such as \<^verbatim>\<open>.*\<close> selects only the suggestions
  that contain a dot followed by a star.
\<close>

theorem getSuggestions_literal_filter:
  "getSuggestions toLowerCase suggestions query =
     filter (\<lambda>s. \<exists>a b. toLowerCase s = a @ toLowerCase query @ b) suggestions
   \<and> subseq (getSuggestions toLowerCase suggestions query) suggestions"
  by (simp add: getSuggestions_def includes_str_iff)

lemma getSuggestions_special_chars:
  "getSuggestions ascii_lower [js ''Cat'', js ''c.t'', js ''A.*'', js ''dog''] (js ''.*'')
     = [js ''A.*'']"
  by code_simp

subsection \<open>The lookup command\<close>

lemma split_at_nonempty: "split_at sep cur s \<noteq> []"
  by (induction sep cur s rule: split_at.induct) auto

lemma split_nonempty: "sep \<noteq> [] \<Longrightarrow> split s sep \<noteq> []"
  by (simp add: split_def split_at_nonempty)

lemma js_two_spaces: "js ''  '' \<noteq> []"
  by (simp add: js_def)

lemma tryParseWordSuggestions_length:
  "tryParseWordSuggestions text = Some suggestions \<Longrightarrow> 1 \<le> length suggestions"
  using split_nonempty[OF js_two_spaces]
  by (auto simp: tryParseWordSuggestions_def Let_def Suc_le_eq split: option.splits)

lemma tryParseWordSuggestions_Nil: "tryParseWordSuggestions [] = None"
  by code_simp

lemma getDictionaryResult_fst:
  "fst (getDictionaryResult st execSync query w) =
     (case execSync (queryCommand st query) of
        Exited status out err \<Rightarrow>
          if status = 0 then Some out else if status = 21 then Some err else None
      | NoExit \<Rightarrow> None)"
  by (simp add: getDictionaryResult_def Let_def split: proc_result.splits)

lemma getDictionaryResult_snd:
  "snd (getDictionaryResult st execSync query w) =
     w\<lparr>commands := commands w @ [queryCommand st query]\<rparr>"
  by (simp add: getDictionaryResult_def Let_def split: proc_result.splits)

lemma addWordEntry_suggestions:
  assumes "fst (getDictionaryResult st execSync word w) = Some raw"
    and "tryParseDefinitions raw = None"
    and "tryParseWordSuggestions raw = Some l"
  shows "fst (addWordEntry st execSync word w) = DidYouMean l"
proof -
  from assms(3) tryParseWordSuggestions_Nil have "raw \<noteq> []" by auto
  moreover from tryParseWordSuggestions_length[OF assms(3)] have "l \<noteq> []" by auto
  ultimately show ?thesis
    using assms by (simp add: addWordEntry_def split_beta)
qed

text \<open>
  C6. \<open>getDictionaryResult\<close> treats exactly the exit status 21 of the external command as
  the sign that nothing was found: it then returns the text of the error stream as the
  output of the lookup, and \<open>addWordEntry\<close> goes on to parse that text for suggestions.
  For the exit status 0 it returns the standard output. For every other exit status, and
  when there is no exit status (the process did not start or was killed), it returns
  \<^verbatim>\<open>null\<close>: a value, not an exception. In every case the command is run once: the
  state after the call has this one command added and nothing else changed.
\<close>

theorem getDictionaryResult_exit_status:
  "(execSync (queryCommand st query) = Exited 0 out err \<longrightarrow>
      fst (getDictionaryResult st execSync query w) = Some out)
   \<and> (execSync (queryCommand st query) = Exited 21 out err \<longrightarrow>
      fst (getDictionaryResult st execSync query w) = Some err)
   \<and> (execSync (queryCommand st query) = Exited status out err \<and> status \<noteq> 0 \<and> status \<noteq> 21 \<longrightarrow>
      fst (getDictionaryResult st execSync query w) = None)
   \<and> (execSync (queryCommand st query) = NoExit \<longrightarrow>
      fst (getDictionaryResult st execSync query w) = None)
   \<and> snd (getDictionaryResult st execSync query w)
        = w\<lparr>commands := commands w @ [queryCommand st query]\<rparr>
   \<and> (execSync (queryCommand st query) = Exited 21 out err \<and> tryParseDefinitions err = None
        \<and> tryParseWordSuggestions err = Some l \<longrightarrow>
      fst (addWordEntry st execSync query w) = DidYouMean l)"
proof -
  have "fst (addWordEntry st execSync query w) = DidYouMean l"
    if "execSync (queryCommand st query) = Exited 21 out err"
      "tryParseDefinitions err = None" "tryParseWordSuggestions err = Some l"
  proof (rule addWordEntry_suggestions)
    show "fst (getDictionaryResult st execSync query w) = Some err"
      using that(1) by (simp add: getDictionaryResult_fst)
  qed (use that in simp_all)
  then show ?thesis
    by (simp add: getDictionaryResult_fst getDictionaryResult_snd)
qed

lemma not_found_output_parse:
  "tryParseDefinitions not_found_output = None"
  "tryParseWordSuggestions not_found_output = Some [js ''cat'', js ''catty'', js ''category'', []]"
  by code_simp+

theorem getDictionaryResult_exit_status_witness:
  "fst (getDictionaryResult DEFAULT_SETTINGS (\<lambda>c. Exited 0 (js ''out'') (js ''err''))
          (js ''cat'') empty_world) = Some (js ''out'')
   \<and> fst (getDictionaryResult DEFAULT_SETTINGS (\<lambda>c. Exited 21 (js ''out'') not_found_output)
          (js ''catt'') empty_world) = Some not_found_output
   \<and> fst (getDictionaryResult DEFAULT_SETTINGS (\<lambda>c. Exited 1 (js ''out'') (js ''err''))
          (js ''cat'') empty_world) = None
   \<and> fst (getDictionaryResult DEFAULT_SETTINGS (\<lambda>c. NoExit) (js ''cat'') empty_world) = None
   \<and> fst (addWordEntry DEFAULT_SETTINGS (\<lambda>c. Exited 21 (js ''out'') not_found_output)
          (js ''catt'') empty_world)
        = DidYouMean [js ''cat'', js ''catty'', js ''category'', []]"
  using getDictionaryResult_exit_status[of "\<lambda>c. Exited 0 (js ''out'') (js ''err'')"
          DEFAULT_SETTINGS "js ''cat''" "js ''out''" "js ''err''" empty_world 0 "[]"]
        getDictionaryResult_exit_status[of "\<lambda>c. Exited 21 (js ''out'') not_found_output"
          DEFAULT_SETTINGS "js ''catt''" "js ''out''" not_found_output empty_world 21
          "[js ''cat'', js ''catty'', js ''category'', []]"]
        getDictionaryResult_exit_status[of "\<lambda>c. Exited 1 (js ''out'') (js ''err'')"
          DEFAULT_SETTINGS "js ''cat''" "js ''out''" "js ''err''" empty_world 1 "[]"]
        getDictionaryResult_exit_status[of "\<lambda>c. NoExit"
          DEFAULT_SETTINGS "js ''cat''" "js ''out''" "js ''err''" empty_world 0 "[]"]
        not_found_output_parse
  by simp

subsection \<open>Writing the note\<close>

lemma createWordNote_exists:
  "files w path \<noteq> None \<Longrightarrow>
     fst (createWordNote path word text w) = AlreadyExists
     \<and> files (snd (createWordNote path word text w)) = files w
     \<and> pending (snd (createWordNote path word text w)) = pending w"
  by (auto simp: createWordNote_def)

lemma createWordNote_started:
  "files w path = None \<Longrightarrow>
     createWordNote path word text w
       = (WriteStarted, w\<lparr>pending := pending w @ [(path, word, text)]\<rparr>)"
  by (simp add: createWordNote_def)

lemma writeFile_callback_last:
  "files (writeFile_callback (length ps) WriteOk (w\<lparr>pending := ps @ [(path, word, text)]\<rparr>))
     path = Some text"
  by (simp add: writeFile_callback_def nth_append)

text \<open>
  C5, as the code has it. For every path, when a file exists at the path
  \<open>createWordNote\<close> ends with \<open>AlreadyExists\<close> and starts no write: the files and the
  writes under way are as they were. Hence a second call on the same path ends with
  \<open>AlreadyExists\<close> and changes no file whenever a file is at the path when it is made,
  which is so once the write that the first call started has ended well; the content at
  the path is then the text of the first call, whatever the second call was given.
\<close>

theorem createWordNote_existing_kept:
  "(files w path \<noteq> None \<longrightarrow>
      fst (createWordNote path word text w) = AlreadyExists
      \<and> files (snd (createWordNote path word text w)) = files w
      \<and> pending (snd (createWordNote path word text w)) = pending w)
   \<and> (files w path = None \<longrightarrow>
      fst (createWordNote path word text w) = WriteStarted
      \<and> files (snd (createWordNote path word text w)) = files w
      \<and> files (writeFile_callback (length (pending w)) WriteOk
                 (snd (createWordNote path word text w))) path = Some text
      \<and> fst (createWordNote path word' text'
               (writeFile_callback (length (pending w)) WriteOk
                  (snd (createWordNote path word text w)))) = AlreadyExists
      \<and> files (snd (createWordNote path word' text'
               (writeFile_callback (length (pending w)) WriteOk
                  (snd (createWordNote path word text w))))) path = Some text)"
proof (intro conjI impI)
  assume "files w path \<noteq> None"
  from createWordNote_exists[OF this, of word "text"]
  show "fst (createWordNote path word text w) = AlreadyExists"
    and "files (snd (createWordNote path word text w)) = files w"
    and "pending (snd (createWordNote path word text w)) = pending w"
    by simp_all
next
  assume none: "files w path = None"
  let ?w1 = "snd (createWordNote path word text w)"
  let ?w2 = "writeFile_callback (length (pending w)) WriteOk ?w1"
  from createWordNote_started[OF none, of word "text"]
  have w1: "?w1 = w\<lparr>pending := pending w @ [(path, word, text)]\<rparr>"
    and r1: "fst (createWordNote path word text w) = WriteStarted"
    by simp_all
  show "fst (createWordNote path word text w) = WriteStarted" by (rule r1)
  show "files ?w1 = files w" by (simp add: w1)
  show landed: "files ?w2 path = Some text"
    unfolding w1 by (rule writeFile_callback_last)
  then have "files ?w2 path \<noteq> None" by simp
  from createWordNote_exists[OF this, of word' text'] landed
  show "fst (createWordNote path word' text' ?w2) = AlreadyExists"
    and "files (snd (createWordNote path word' text' ?w2)) path = Some text"
    by simp_all
qed

theorem createWordNote_existing_kept_witness:
  "fst (createWordNote (js ''words/cat.md'') (js ''cat'') (js ''new'')
          (empty_world\<lparr>files := [js ''words/cat.md'' \<mapsto> js ''old'']\<rparr>)) = AlreadyExists
   \<and> files (snd (createWordNote (js ''words/cat.md'') (js ''cat'') (js ''new'')
          (empty_world\<lparr>files := [js ''words/cat.md'' \<mapsto> js ''old'']\<rparr>)))
        = [js ''words/cat.md'' \<mapsto> js ''old'']
   \<and> fst (createWordNote (js ''words/cat.md'') (js ''cat'') (js ''first'') empty_world)
        = WriteStarted
   \<and> fst (createWordNote (js ''words/cat.md'') (js ''cat'') (js ''second'')
          (writeFile_callback (length (pending empty_world)) WriteOk
             (snd (createWordNote (js ''words/cat.md'') (js ''cat'') (js ''first'')
                empty_world)))) = AlreadyExists
   \<and> files (snd (createWordNote (js ''words/cat.md'') (js ''cat'') (js ''second'')
          (writeFile_callback (length (pending empty_world)) WriteOk
             (snd (createWordNote (js ''words/cat.md'') (js ''cat'') (js ''first'')
                empty_world))))) (js ''words/cat.md'') = Some (js ''first'')"
proof -
  have 1: "files (empty_world\<lparr>files := [js ''words/cat.md'' \<mapsto> js ''old'']\<rparr>)
             (js ''words/cat.md'') \<noteq> None"
    by simp
  have 2: "files (empty_world\<lparr>files := [js ''words/cat.md'' \<mapsto> js ''old'']\<rparr>)
             = [js ''words/cat.md'' \<mapsto> js ''old'']"
    by simp
  have 3: "files empty_world (js ''words/cat.md'') = None"
    by (simp add: empty_world_def)
  from createWordNote_existing_kept[of
      "empty_world\<lparr>files := [js ''words/cat.md'' \<mapsto> js ''old'']\<rparr>" "js ''words/cat.md''"
      "js ''cat''" "js ''new''" "js ''cat''" "js ''new''"] 1 2
  have a: "fst (createWordNote (js ''words/cat.md'') (js ''cat'') (js ''new'')
          (empty_world\<lparr>files := [js ''words/cat.md'' \<mapsto> js ''old'']\<rparr>)) = AlreadyExists"
    and b: "files (snd (createWordNote (js ''words/cat.md'') (js ''cat'') (js ''new'')
          (empty_world\<lparr>files := [js ''words/cat.md'' \<mapsto> js ''old'']\<rparr>)))
        = [js ''words/cat.md'' \<mapsto> js ''old'']"
    by simp_all
  from createWordNote_existing_kept[of empty_world "js ''words/cat.md''"
      "js ''cat''" "js ''first''" "js ''cat''" "js ''second''"] 3
  have c: "fst (createWordNote (js ''words/cat.md'') (js ''cat'') (js ''first'') empty_world)
        = WriteStarted"
    and d: "fst (createWordNote (js ''words/cat.md'') (js ''cat'') (js ''second'')
          (writeFile_callback (length (pending empty_world)) WriteOk
             (snd (createWordNote (js ''words/cat.md'') (js ''cat'') (js ''first'')
                empty_world)))) = AlreadyExists"
    and e: "files (snd (createWordNote (js ''words/cat.md'') (js ''cat'') (js ''second'')
          (writeFile_callback (length (pending empty_world)) WriteOk
             (snd (createWordNote (js ''words/cat.md'') (js ''cat'') (js ''first'')
                empty_world))))) (js ''words/cat.md'') = Some (js ''first'')"
    by blast+
  from a b c d e show ?thesis by blast
qed

text \<open>
  The second of two calls does not always end with \<open>AlreadyExists\<close>, and two calls on one
  path can give the file two different contents. When the second call is made before the
  write of the first has ended, no file is at the path yet: both calls start a write, and
  when the two writes end, the file has the text of the first call and then the text of
  the second.
\<close>

theorem createWordNote_second_call_counterexample:
  "fst (createWordNote (js ''words/cat.md'') (js ''cat'') (js ''second'')
          (snd (createWordNote (js ''words/cat.md'') (js ''cat'') (js ''first'')
             empty_world))) = WriteStarted
   \<and> fst (createWordNote (js ''words/cat.md'') (js ''cat'') (js ''second'')
          (snd (createWordNote (js ''words/cat.md'') (js ''cat'') (js ''first'')
             empty_world))) \<noteq> AlreadyExists
   \<and> files (writeFile_callback 0 WriteOk
          (snd (createWordNote (js ''words/cat.md'') (js ''cat'') (js ''second'')
             (snd (createWordNote (js ''words/cat.md'') (js ''cat'') (js ''first'')
                empty_world))))) (js ''words/cat.md'') = Some (js ''first'')
   \<and> files (writeFile_callback 0 WriteOk (writeFile_callback 0 WriteOk
          (snd (createWordNote (js ''words/cat.md'') (js ''cat'') (js ''second'')
             (snd (createWordNote (js ''words/cat.md'') (js ''cat'') (js ''first'')
                empty_world)))))) (js ''words/cat.md'') = Some (js ''second'')
   \<and> js ''first'' \<noteq> js ''second''"
  by (simp add: createWordNote_def writeFile_callback_def empty_world_def js_def)

subsection \<open>The bounds of a match\<close>

lemma occurs_substring:
  assumes "occurs p s i n"
  shows "substring s (int i) (int (i + n)) = take n (drop i s)"
  using assms by (simp add: occurs_def substring_mid)

text \<open>
  C8. \<open>getNextMatchBounds\<close> is a function of the pattern and the text alone: it makes
  a new \<open>RegExp\<close> object, with \<open>lastIndex\<close> 0, at every call and returns nothing of it,
  so no state passes from one call to the next and equal arguments give equal results.
  It returns \<^verbatim>\<open>null\<close> exactly when the pattern occurs nowhere in the text. Otherwise it
  returns the bounds of the first occurrence: \<open>0 \<le> start \<le> stop \<le> length input\<close>, the
  text between the bounds is matched by the pattern, \<open>stop - start\<close> is its length, and
  no occurrence starts before \<open>start\<close>.
\<close>

theorem getNextMatchBounds_first_occurrence:
  "(getNextMatchBounds pattern input = None \<longleftrightarrow> (\<forall>i n. \<not> occurs pattern input i n))
   \<and> (getNextMatchBounds pattern input = Some (start, stop) \<longrightarrow>
        0 \<le> start \<and> start \<le> stop \<and> stop \<le> int (length input)
        \<and> matches pattern (substring input start stop)
        \<and> int (length (substring input start stop)) = stop - start
        \<and> (\<forall>i n. occurs pattern input i n \<longrightarrow> start \<le> int i))"
proof (intro conjI impI)
  show "getNextMatchBounds pattern input = None \<longleftrightarrow> (\<forall>i n. \<not> occurs pattern input i n)"
    by (rule getNextMatchBounds_None)
next
  assume "getNextMatchBounds pattern input = Some (start, stop)"
  from getNextMatchBounds_Some[OF this] obtain i n where
    ab: "start = int i" "stop = int (i + n)" and occ: "occurs pattern input i n"
    and first: "\<forall>j<i. \<forall>m. \<not> occurs pattern input j m"
    by blast
  from occ have le: "i + n \<le> length input" and m: "matches pattern (take n (drop i input))"
    by (simp_all add: occurs_def)
  have sub: "substring input start stop = take n (drop i input)"
    using occurs_substring[OF occ] ab by simp
  show "0 \<le> start" using ab by simp
  show "start \<le> stop" using ab by simp
  show "stop \<le> int (length input)" using ab le by simp
  show "matches pattern (substring input start stop)" using sub m by simp
  show "int (length (substring input start stop)) = stop - start"
    using sub le ab by simp
  show "\<forall>i n. occurs pattern input i n \<longrightarrow> start \<le> int i"
  proof (intro allI impI)
    fix j m assume "occurs pattern input j m"
    with first have "\<not> j < i" by blast
    with ab show "start \<le> int j" by simp
  qed
qed

lemma source_example: "getNextMatchBounds definitionSourcePattern (js ''x From a:\<newline>\<newline>y'') = Some (2, 11)"
  by code_simp

theorem getNextMatchBounds_first_occurrence_witness:
  "getNextMatchBounds definitionSourcePattern (js ''x From a:\<newline>\<newline>y'') = Some (2, 11)
   \<and> matches definitionSourcePattern (substring (js ''x From a:\<newline>\<newline>y'') 2 11)
   \<and> int (length (substring (js ''x From a:\<newline>\<newline>y'') 2 11)) = 11 - 2
   \<and> 11 \<le> int (length (js ''x From a:\<newline>\<newline>y''))
   \<and> getNextMatchBounds definitionSourcePattern (js ''garbage unrelated text'') = None
   \<and> \<not> occurs definitionSourcePattern (js ''garbage unrelated text'') 0 9"
proof -
  have none: "getNextMatchBounds definitionSourcePattern (js ''garbage unrelated text'') = None"
    by code_simp
  from getNextMatchBounds_first_occurrence[of definitionSourcePattern
      "js ''x From a:\<newline>\<newline>y''" 2 11] source_example
    getNextMatchBounds_first_occurrence[of definitionSourcePattern
      "js ''garbage unrelated text''" 0 0] none
  show ?thesis by simp
qed

text \<open>
  The state that \<open>getNextMatchBounds\<close> keeps out: an object used for a second \<open>exec\<close>
  on the same text starts where the first match ended, and finds nothing here.
\<close>

lemma exec_twice_on_one_object:
  "fst (exec (new_RegExp definitionSourcePattern) (js ''x From a:\<newline>\<newline>y''))
     = Some (js ''From a:\<newline>\<newline>'')
   \<and> lastIndex (snd (exec (new_RegExp definitionSourcePattern) (js ''x From a:\<newline>\<newline>y''))) = 11
   \<and> fst (exec (snd (exec (new_RegExp definitionSourcePattern) (js ''x From a:\<newline>\<newline>y'')))
          (js ''x From a:\<newline>\<newline>y'')) = None"
  by code_simp

subsection \<open>The loop that removes the headers\<close>

lemma strip_loop_dom_all: "strip_loop_dom (d, bs)"
proof (induction "strip_measure (d, bs)" arbitrary: d bs rule: less_induct)
  case less
  show ?case
  proof (rule strip_loop.domintros)
    fix b0 b1
    assume "bs = Some (b0, b1)"
    then show "strip_loop_dom
        (substring d 0 b0 @ substring_from d b1,
         getNextMatchBounds definitionSourcePattern
           (substring d 0 b0 @ substring_from d b1))"
      by (intro less.hyps) (simp add: strip_loop_decreases)
  qed
qed

lemma strip_loop_length: "length (strip_loop d bs) \<le> (case bs of None \<Rightarrow> length d | Some (b0, b1) \<Rightarrow> length (substring d 0 b0 @ substring_from d b1))"
proof (induction d bs rule: strip_loop.induct)
  case (1 d bs)
  show ?case
  proof (cases bs)
    case None
    then show ?thesis by simp
  next
    case (Some ab)
    obtain b0 b1 where ab: "ab = (b0, b1)" by (cases ab)
    let ?d' = "substring d 0 b0 @ substring_from d b1"
    have unfold: "strip_loop d bs
        = strip_loop ?d' (getNextMatchBounds definitionSourcePattern ?d')"
      using Some ab by (simp add: strip_loop_Some)
    have ih: "length (strip_loop ?d' (getNextMatchBounds definitionSourcePattern ?d'))
              \<le> (case getNextMatchBounds definitionSourcePattern ?d' of None \<Rightarrow> length ?d'
                  | Some (b0, b1) \<Rightarrow> length (substring ?d' 0 b0 @ substring_from ?d' b1))"
      by (rule "1.IH"[OF Some ab[symmetric] refl])
    have "(case getNextMatchBounds definitionSourcePattern ?d' of None \<Rightarrow> length ?d'
                  | Some (b0, b1) \<Rightarrow> length (substring ?d' 0 b0 @ substring_from ?d' b1)) \<le> length ?d'"
      using source_step_shorter[of ?d'] by (auto split: option.splits)
    with ih Some ab unfold show ?thesis by simp
  qed
qed

text \<open>
  C10. The loop of \<open>tryParseDefinitions\<close> that removes the headers ends on every text:
  every pair of a text and bounds is in the domain of \<open>strip_loop\<close>. Each turn removes
  a match of \<^verbatim>\<open>From .+:\n\n\<close>, which has at least 9 code units, so the text gets
  shorter by at least 9 at every turn and the result is no longer than the text the
  loop started with. Hence \<open>tryParseDefinitions\<close> returns on every text: \<^verbatim>\<open>null\<close>
  when the first pattern is not found, a string otherwise.
\<close>

theorem strip_loop_terminates:
  "strip_loop_dom (definitions, defSourceBounds)
   \<and> (getNextMatchBounds definitionSourcePattern definitions = Some (b0, b1) \<longrightarrow>
        9 \<le> b1 - b0
        \<and> length (substring definitions 0 b0 @ substring_from definitions b1) + 9
             \<le> length definitions)
   \<and> length (strip_loop definitions (getNextMatchBounds definitionSourcePattern definitions))
        \<le> length definitions
   \<and> (tryParseDefinitions raw = None
        \<longleftrightarrow> getNextMatchBounds definitionFoundPattern raw = None)"
proof (intro conjI impI)
  show "strip_loop_dom (definitions, defSourceBounds)" by (rule strip_loop_dom_all)
next
  assume a: "getNextMatchBounds definitionSourcePattern definitions = Some (b0, b1)"
  from getNextMatchBounds_Some[OF a] obtain i n where
    ab: "b0 = int i" "b1 = int (i + n)" and occ: "occurs definitionSourcePattern definitions i n"
    by blast
  from occ matches_min_len[of definitionSourcePattern "take n (drop i definitions)"]
  have "9 \<le> n" by (simp add: occurs_def min_len_source)
  with ab show "9 \<le> b1 - b0" by simp
  show "length (substring definitions 0 b0 @ substring_from definitions b1) + 9
          \<le> length definitions"
    by (rule source_step_shorter[OF a])
next
  show "length (strip_loop definitions (getNextMatchBounds definitionSourcePattern definitions))
          \<le> length definitions"
    using strip_loop_length[of definitions "getNextMatchBounds definitionSourcePattern definitions"]
      source_step_shorter[of definitions]
    by (auto split: option.splits)
next
  show "tryParseDefinitions raw = None \<longleftrightarrow> getNextMatchBounds definitionFoundPattern raw = None"
    by (simp add: tryParseDefinitions_def Let_def split: option.splits)
qed

theorem strip_loop_terminates_witness:
  "getNextMatchBounds definitionSourcePattern (js ''x From a:\<newline>\<newline>y'') = Some (2, 11)
   \<and> (9::int) \<le> 11 - 2
   \<and> length (substring (js ''x From a:\<newline>\<newline>y'') 0 2
         @ substring_from (js ''x From a:\<newline>\<newline>y'') 11) + 9
        \<le> length (js ''x From a:\<newline>\<newline>y'')
   \<and> strip_loop_dom (js ''x From a:\<newline>\<newline>y'', Some (2, 11))"
  using strip_loop_terminates[of "js ''x From a:\<newline>\<newline>y''" "Some (2, 11)" 2 11 "[]"]
    source_example
  by simp

subsection \<open>Output that matches neither pattern\<close>

lemma addWordEntry_NoSuggestions_iff:
  "fst (addWordEntry st execSync word w) = NoSuggestions \<longleftrightarrow>
     (\<exists>raw. fst (getDictionaryResult st execSync word w) = Some raw \<and> raw \<noteq> []
        \<and> tryParseDefinitions raw = None \<and> tryParseWordSuggestions raw = None)"
proof (cases "fst (getDictionaryResult st execSync word w)")
  case None
  then show ?thesis by (simp add: addWordEntry_def split_beta)
next
  case (Some raw)
  show ?thesis
  proof (cases "raw = []")
    case True
    with Some show ?thesis by (simp add: addWordEntry_def split_beta)
  next
    case False
    show ?thesis
    proof (cases "tryParseDefinitions raw")
      case (Some d)
      with \<open>fst (getDictionaryResult st execSync word w) = Some raw\<close> False show ?thesis
        by (simp add: addWordEntry_def split_beta Let_def)
    next
      case None
      show ?thesis
      proof (cases "tryParseWordSuggestions raw")
        case None
        with \<open>tryParseDefinitions raw = None\<close>
          \<open>fst (getDictionaryResult st execSync word w) = Some raw\<close> False
        show ?thesis by (simp add: addWordEntry_def split_beta)
      next
        case (Some l)
        from tryParseWordSuggestions_length[OF Some] have "l \<noteq> []" by auto
        with Some \<open>tryParseDefinitions raw = None\<close>
          \<open>fst (getDictionaryResult st execSync word w) = Some raw\<close> False
        show ?thesis by (simp add: addWordEntry_def split_beta)
      qed
    qed
  qed
qed

lemma addWordEntry_no_entry_world:
  assumes "fst (getDictionaryResult st execSync word w) = Some raw"
    and "tryParseDefinitions raw = None" and "tryParseWordSuggestions raw = None"
  shows "files (snd (addWordEntry st execSync word w)) = files w
         \<and> modal (snd (addWordEntry st execSync word w)) = modal w
         \<and> selection (snd (addWordEntry st execSync word w)) = selection w"
  using assms by (simp add: addWordEntry_def split_beta getDictionaryResult_snd)

text \<open>
  C9. Whenever \<open>tryParseWordSuggestions\<close> succeeds, the list it returns has at least one
  element, since a split on two spaces gives at least one piece. Hence \<open>addWordEntry\<close>
  ends with no suggestions given only when the parse of the suggestions itself returned
  \<^verbatim>\<open>null\<close> (the parse of the definitions having returned \<^verbatim>\<open>null\<close> too), never because
  a parsed list was empty.
\<close>

theorem suggestions_never_empty:
  "(tryParseWordSuggestions raw = Some suggestions \<longrightarrow> 1 \<le> length suggestions)
   \<and> (fst (addWordEntry st execSync word w) = NoSuggestions \<longrightarrow>
        (\<exists>out. fst (getDictionaryResult st execSync word w) = Some out
           \<and> tryParseDefinitions out = None \<and> tryParseWordSuggestions out = None))"
  using tryParseWordSuggestions_length[of raw suggestions]
    addWordEntry_NoSuggestions_iff[of st execSync word w]
  by blast

lemma garbage_output_parse:
  "getNextMatchBounds definitionFoundPattern garbage_output = None"
  "getNextMatchBounds noDefinitionPattern garbage_output = None"
  "tryParseDefinitions garbage_output = None"
  "tryParseWordSuggestions garbage_output = None"
  by code_simp+

lemma garbage_lookup:
  "fst (addWordEntry DEFAULT_SETTINGS (\<lambda>c. Exited 0 garbage_output []) (js ''cat'')
          empty_world) = NoSuggestions"
  by (simp add: addWordEntry_NoSuggestions_iff getDictionaryResult_fst garbage_output_parse)
     (simp add: garbage_output_def js_def)

theorem suggestions_never_empty_witness:
  "tryParseWordSuggestions not_found_output
     = Some [js ''cat'', js ''catty'', js ''category'', []]
   \<and> 1 \<le> length [js ''cat'', js ''catty'', js ''category'', []]
   \<and> fst (addWordEntry DEFAULT_SETTINGS (\<lambda>c. Exited 0 garbage_output []) (js ''cat'')
          empty_world) = NoSuggestions
   \<and> (\<exists>out. fst (getDictionaryResult DEFAULT_SETTINGS (\<lambda>c. Exited 0 garbage_output [])
                   (js ''cat'') empty_world) = Some out
          \<and> tryParseDefinitions out = None \<and> tryParseWordSuggestions out = None)"
  using suggestions_never_empty[of not_found_output
      "[js ''cat'', js ''catty'', js ''category'', []]" DEFAULT_SETTINGS
      "\<lambda>c. Exited 0 garbage_output []" "js ''cat''" empty_world]
    not_found_output_parse(2) garbage_lookup
  by simp

text \<open>
  C4. For every output in which neither the pattern of the definitions nor the pattern
  of the missing definition occurs, \<open>tryParseDefinitions\<close> and \<open>tryParseWordSuggestions\<close>
  both return \<^verbatim>\<open>null\<close>, and a lookup that got this output ends with no entry and no
  suggestions: no note is requested, no file is written, the picker is not opened and the
  selection is not replaced.
\<close>

theorem neither_marker_malformed:
  assumes "\<forall>i n. \<not> occurs definitionFoundPattern raw i n"
    and "\<forall>i n. \<not> occurs noDefinitionPattern raw i n"
  shows "tryParseDefinitions raw = None \<and> tryParseWordSuggestions raw = None
         \<and> (fst (getDictionaryResult st execSync word w) = Some raw \<longrightarrow>
              (fst (addWordEntry st execSync word w) = NoSuggestions
               \<or> fst (addWordEntry st execSync word w) = LookupFailed)
              \<and> (raw \<noteq> [] \<longrightarrow> fst (addWordEntry st execSync word w) = NoSuggestions)
              \<and> files (snd (addWordEntry st execSync word w)) = files w
              \<and> modal (snd (addWordEntry st execSync word w)) = modal w
              \<and> selection (snd (addWordEntry st execSync word w)) = selection w)"
proof -
  from assms(1) have "getNextMatchBounds definitionFoundPattern raw = None"
    by (simp add: getNextMatchBounds_None)
  then have d: "tryParseDefinitions raw = None"
    by (simp add: tryParseDefinitions_def)
  from assms(2) have "getNextMatchBounds noDefinitionPattern raw = None"
    by (simp add: getNextMatchBounds_None)
  then have s: "tryParseWordSuggestions raw = None"
    by (simp add: tryParseWordSuggestions_def)
  have "fst (addWordEntry st execSync word w) = NoSuggestions
        \<or> fst (addWordEntry st execSync word w) = LookupFailed"
    if "fst (getDictionaryResult st execSync word w) = Some raw"
    using that d s addWordEntry_NoSuggestions_iff[of st execSync word w]
    by (cases "raw = []") (auto simp: addWordEntry_def split_beta)
  moreover have "fst (addWordEntry st execSync word w) = NoSuggestions"
    if "fst (getDictionaryResult st execSync word w) = Some raw" "raw \<noteq> []"
    using that d s addWordEntry_NoSuggestions_iff[of st execSync word w] by auto
  ultimately show ?thesis
    using d s addWordEntry_no_entry_world[of st execSync word w raw] by blast
qed

theorem neither_marker_malformed_witness:
  "tryParseDefinitions garbage_output = None \<and> tryParseWordSuggestions garbage_output = None
   \<and> fst (addWordEntry DEFAULT_SETTINGS (\<lambda>c. Exited 0 garbage_output []) (js ''cat'')
          empty_world) = NoSuggestions
   \<and> files (snd (addWordEntry DEFAULT_SETTINGS (\<lambda>c. Exited 0 garbage_output [])
          (js ''cat'') empty_world)) = files empty_world"
proof -
  have 1: "\<forall>i n. \<not> occurs definitionFoundPattern garbage_output i n"
    using garbage_output_parse(1) by (simp add: getNextMatchBounds_None)
  have 2: "\<forall>i n. \<not> occurs noDefinitionPattern garbage_output i n"
    using garbage_output_parse(2) by (simp add: getNextMatchBounds_None)
  have 3: "fst (getDictionaryResult DEFAULT_SETTINGS (\<lambda>c. Exited 0 garbage_output [])
                  (js ''cat'') empty_world) = Some garbage_output"
    by (simp add: getDictionaryResult_fst)
  have 4: "garbage_output \<noteq> []" by (simp add: garbage_output_def js_def)
  from neither_marker_malformed[OF 1 2, of DEFAULT_SETTINGS "\<lambda>c. Exited 0 garbage_output []"
      "js ''cat''" empty_world] 3 4
  show ?thesis by simp
qed

subsection \<open>The shape of the three markers\<close>

inductive_cases matches_NilE: "matches [] w"
inductive_cases matches_OneE: "matches ((c, One) # p) w"
inductive_cases matches_OptE: "matches ((c, Opt) # p) w"
inductive_cases matches_PlusE: "matches ((c, Plus) # p) w"

lemma matches_Nil_iff [simp]: "matches [] w \<longleftrightarrow> w = []"
  by (auto elim: matches_NilE intro: m_nil)

lemma matches_One_iff:
  "matches ((c, One) # p) w \<longleftrightarrow> (\<exists>x w'. w = x # w' \<and> accepts c x \<and> matches p w')"
  by (auto elim: matches_OneE intro: m_one)

lemma matches_Opt_iff:
  "matches ((c, Opt) # p) w \<longleftrightarrow>
     matches p w \<or> (\<exists>x w'. w = x # w' \<and> accepts c x \<and> matches p w')"
  by (auto elim: matches_OptE intro: m_opt_skip m_opt_take)

lemma matches_Plus_run:
  "xs \<noteq> [] \<Longrightarrow> \<forall>x\<in>set xs. accepts c x \<Longrightarrow> matches p w \<Longrightarrow> matches ((c, Plus) # p) (xs @ w)"
proof (induction xs)
  case Nil
  then show ?case by simp
next
  case (Cons x xs)
  show ?case
  proof (cases "xs = []")
    case True
    with Cons.prems show ?thesis by (auto intro: m_plus_last)
  next
    case False
    with Cons have "matches ((c, Plus) # p) (xs @ w)" by simp
    with Cons.prems show ?thesis by (auto intro: m_plus_more)
  qed
qed

lemma matches_Plus_split:
  "matches q w \<Longrightarrow> q = (c, Plus) # p \<Longrightarrow>
     \<exists>xs w'. w = xs @ w' \<and> xs \<noteq> [] \<and> (\<forall>x\<in>set xs. accepts c x) \<and> matches p w'"
proof (induction rule: matches.induct)
  case (m_plus_last c' x p' w)
  then have "x # w = [x] @ w \<and> [x] \<noteq> [] \<and> (\<forall>y\<in>set [x]. accepts c y) \<and> matches p w"
    by simp
  then show ?case by blast
next
  case (m_plus_more c' x p' w)
  then obtain xs w' where "w = xs @ w'" "xs \<noteq> []" "\<forall>y\<in>set xs. accepts c y" "matches p w'"
    by auto
  with m_plus_more.hyps(1) m_plus_more.prems
  have "x # w = (x # xs) @ w' \<and> x # xs \<noteq> [] \<and> (\<forall>y\<in>set (x # xs). accepts c y)
        \<and> matches p w'"
    by simp
  then show ?case by blast
qed simp_all

lemma matches_Plus_iff:
  "matches ((c, Plus) # p) w \<longleftrightarrow>
     (\<exists>xs w'. w = xs @ w' \<and> xs \<noteq> [] \<and> (\<forall>x\<in>set xs. accepts c x) \<and> matches p w')"
  using matches_Plus_split[of "(c, Plus) # p" w c p] matches_Plus_run[of _ c p]
  by blast

lemma matches_lits_append:
  "matches (lits l @ p) w \<longleftrightarrow> (\<exists>w'. w = js l @ w' \<and> matches p w')"
proof (induction l arbitrary: w)
  case Nil
  then show ?case by (simp add: lits_def js_def)
next
  case (Cons a l)
  have "matches (lits (a # l) @ p) w \<longleftrightarrow>
          (\<exists>x w'. w = x # w' \<and> x = of_char a \<and> matches (lits l @ p) w')"
    by (simp add: lits_def matches_One_iff)
  also have "\<dots> \<longleftrightarrow> (\<exists>w'. w = js (a # l) @ w' \<and> matches p w')"
    by (auto simp: Cons.IH js_def)
  finally show ?case .
qed

lemma matches_lits: "matches (lits l) w \<longleftrightarrow> w = js l"
  using matches_lits_append[of l "[]" w] by simp

lemma matches_Plus_lits:
  "matches ((c, Plus) # lits l) w \<longleftrightarrow>
     (\<exists>xs. w = xs @ js l \<and> xs \<noteq> [] \<and> (\<forall>x\<in>set xs. accepts c x))"
  by (simp add: matches_Plus_iff matches_lits)

lemma source_marker_iff:
  "matches definitionSourcePattern h \<longleftrightarrow>
     (\<exists>src. h = js ''From '' @ src @ js '':\<newline>\<newline>'' \<and> no_line_break src)"
proof -
  have "matches definitionSourcePattern h \<longleftrightarrow>
          (\<exists>w'. h = js ''From '' @ w' \<and> matches ((AnyChar, Plus) # lits '':\<newline>\<newline>'') w')"
    unfolding definitionSourcePattern_def append_Cons append_Nil
    by (rule matches_lits_append)
  then show ?thesis
    unfolding matches_Plus_lits no_line_break_def by blast
qed

lemma matches_Opt_lits:
  "matches ((Lit c, Opt) # lits l) w \<longleftrightarrow> w = js l \<or> w = c # js l"
  by (auto simp: matches_Opt_iff matches_lits)

lemma found_marker_iff:
  "matches definitionFoundPattern m \<longleftrightarrow>
     (\<exists>count plural. m = count @ js '' definition'' @ plural @ js '' found\<newline>\<newline>''
        \<and> count \<noteq> [] \<and> (\<forall>x\<in>set count. accepts Digit x)
        \<and> (plural = [] \<or> plural = js ''s''))"
proof -
  have s: "js ''s'' = [of_char CHR ''s'']" by (simp add: js_def)
  have "matches definitionFoundPattern m \<longleftrightarrow>
          (\<exists>count w'. m = count @ w' \<and> count \<noteq> [] \<and> (\<forall>x\<in>set count. accepts Digit x)
             \<and> matches (lits '' definition''
                  @ (Lit (of_char CHR ''s''), Opt) # lits '' found\<newline>\<newline>'') w')"
    unfolding definitionFoundPattern_def append_Cons append_Nil
    by (rule matches_Plus_iff)
  also have "\<dots> \<longleftrightarrow>
          (\<exists>count w''. m = count @ js '' definition'' @ w'' \<and> count \<noteq> []
             \<and> (\<forall>x\<in>set count. accepts Digit x)
             \<and> (w'' = js '' found\<newline>\<newline>'' \<or> w'' = of_char CHR ''s'' # js '' found\<newline>\<newline>''))"
    unfolding matches_lits_append matches_Opt_lits by blast
  also have "\<dots> \<longleftrightarrow>
     (\<exists>count plural. m = count @ js '' definition'' @ plural @ js '' found\<newline>\<newline>''
        \<and> count \<noteq> [] \<and> (\<forall>x\<in>set count. accepts Digit x)
        \<and> (plural = [] \<or> plural = js ''s''))"
    unfolding s
  proof (intro iffI; elim exE conjE)
    fix count w''
    assume a: "m = count @ js '' definition'' @ w''" "count \<noteq> []"
      "\<forall>x\<in>set count. accepts Digit x"
      "w'' = js '' found\<newline>\<newline>'' \<or> w'' = of_char CHR ''s'' # js '' found\<newline>\<newline>''"
    from a(4) consider "w'' = [] @ js '' found\<newline>\<newline>''"
      | "w'' = [of_char CHR ''s''] @ js '' found\<newline>\<newline>''" by auto
    then show "\<exists>count plural. m = count @ js '' definition'' @ plural @ js '' found\<newline>\<newline>''
        \<and> count \<noteq> [] \<and> (\<forall>x\<in>set count. accepts Digit x)
        \<and> (plural = [] \<or> plural = [of_char CHR ''s''])"
      using a(1,2,3) by cases blast+
  next
    fix count plural
    assume a: "m = count @ js '' definition'' @ plural @ js '' found\<newline>\<newline>''" "count \<noteq> []"
      "\<forall>x\<in>set count. accepts Digit x" "plural = [] \<or> plural = [of_char CHR ''s'']"
    from a(4) have "plural @ js '' found\<newline>\<newline>'' = js '' found\<newline>\<newline>''
        \<or> plural @ js '' found\<newline>\<newline>'' = of_char CHR ''s'' # js '' found\<newline>\<newline>''"
      by auto
    with a(1,2,3) show "\<exists>count w''. m = count @ js '' definition'' @ w'' \<and> count \<noteq> []
             \<and> (\<forall>x\<in>set count. accepts Digit x)
             \<and> (w'' = js '' found\<newline>\<newline>'' \<or> w'' = of_char CHR ''s'' # js '' found\<newline>\<newline>'')"
      by blast
  qed
  finally show ?thesis .
qed

lemma no_definition_marker_iff:
  "matches noDefinitionPattern m \<longleftrightarrow>
     (\<exists>term srcs. m = js ''No definitions found for \"'' @ term
          @ js ''\", perhaps you mean:\<newline>'' @ srcs @ js '':  ''
        \<and> no_line_break term \<and> no_line_break srcs)"
proof -
  have "matches noDefinitionPattern m \<longleftrightarrow>
          (\<exists>w'. m = js ''No definitions found for \"'' @ w'
             \<and> matches ((AnyChar, Plus) # (lits ''\", perhaps you mean:\<newline>''
                  @ (AnyChar, Plus) # lits '':  '')) w')"
    unfolding noDefinitionPattern_def append_Cons append_Nil
    by (rule matches_lits_append)
  also have "\<dots> \<longleftrightarrow>
          (\<exists>term w''. m = js ''No definitions found for \"'' @ term @ w''
             \<and> no_line_break term
             \<and> matches (lits ''\", perhaps you mean:\<newline>'' @ (AnyChar, Plus) # lits '':  '') w'')"
    unfolding matches_Plus_iff no_line_break_def by blast
  also have "\<dots> \<longleftrightarrow>
     (\<exists>term srcs. m = js ''No definitions found for \"'' @ term
          @ js ''\", perhaps you mean:\<newline>'' @ srcs @ js '':  ''
        \<and> no_line_break term \<and> no_line_break srcs)"
    unfolding matches_lits_append matches_Plus_lits no_line_break_def by blast
  finally show ?thesis .
qed

subsection \<open>Trimming\<close>

lemma rev_dropWhile_takeWhile:
  "t = rev (dropWhile P (rev t)) @ rev (takeWhile P (rev t))"
  by (metis rev_append rev_rev_ident takeWhile_dropWhile_id)

lemma trim_decomp:
  "\<exists>w1 w2. s = w1 @ trim s @ w2 \<and> (\<forall>x\<in>set w1. is_white_space x)
      \<and> (\<forall>x\<in>set w2. is_white_space x)"
proof -
  let ?t = "dropWhile is_white_space s"
  let ?w1 = "takeWhile is_white_space s"
  let ?w2 = "rev (takeWhile is_white_space (rev ?t))"
  have "?t = trim s @ ?w2"
    unfolding trim_def by (rule rev_dropWhile_takeWhile)
  moreover have "s = ?w1 @ ?t" by simp
  ultimately have "s = ?w1 @ trim s @ ?w2" by simp
  moreover have "\<forall>x\<in>set ?w1. is_white_space x" by (auto dest: set_takeWhileD)
  moreover have "\<forall>x\<in>set ?w2. is_white_space x" by (auto dest: set_takeWhileD)
  ultimately show ?thesis by blast
qed

lemma trim_Cons_space: "is_white_space x \<Longrightarrow> trim (x # s) = trim s"
  by (simp add: trim_def)

lemma trim_ends:
  "trim s = [] \<or> (\<not> is_white_space (hd (trim s)) \<and> \<not> is_white_space (last (trim s)))"
proof (cases "trim s = []")
  case True
  then show ?thesis by simp
next
  case False
  let ?t = "dropWhile is_white_space s"
  let ?u = "dropWhile is_white_space (rev ?t)"
  have tu: "trim s = rev ?u" by (simp add: trim_def)
  with False have u: "?u \<noteq> []" by simp
  then have "\<not> is_white_space (hd ?u)" by (rule hd_dropWhile)
  with u tu have l: "\<not> is_white_space (last (trim s))" by (simp add: last_rev)
  from u have "rev ?t \<noteq> []" by (metis dropWhile.simps(1))
  then have t: "?t \<noteq> []" by simp
  then have ht: "\<not> is_white_space (hd ?t)" by (rule hd_dropWhile)
  have "?t = trim s @ rev (takeWhile is_white_space (rev ?t))"
    unfolding trim_def by (rule rev_dropWhile_takeWhile)
  with False have "hd ?t = hd (trim s)" by (metis hd_append2)
  with ht l show ?thesis by simp
qed

lemma trim_id:
  assumes "s = [] \<or> (\<not> is_white_space (hd s) \<and> \<not> is_white_space (last s))"
  shows "trim s = s"
proof (cases "s = []")
  case True
  then show ?thesis by (simp add: trim_def)
next
  case False
  with assms have h: "\<not> is_white_space (hd s)" and l: "\<not> is_white_space (last s)" by auto
  from False h have 1: "dropWhile is_white_space s = s" by (cases s) auto
  from False l have "\<not> is_white_space (hd (rev s))" by (simp add: hd_rev)
  with False have 2: "dropWhile is_white_space (rev s) = rev s" by (cases "rev s") auto
  from 1 2 show ?thesis by (simp add: trim_def)
qed

lemma trim_idem: "trim (trim s) = trim s"
  by (rule trim_id) (rule trim_ends)

subsection \<open>The definitions\<close>

lemma list_cut3: "s = take i s @ take n (drop i s) @ drop (i + n) s"
proof -
  have "take n (drop i s) @ drop (i + n) s = drop i s"
    by (metis add.commute append_take_drop_id drop_drop)
  then show ?thesis by (metis append_take_drop_id)
qed

lemma occurs_split:
  "occurs p s i n \<longleftrightarrow> (\<exists>u h v. s = u @ h @ v \<and> length u = i \<and> length h = n \<and> matches p h)"
proof
  assume o: "occurs p s i n"
  have "s = take i s @ take n (drop i s) @ drop (i + n) s" by (rule list_cut3)
  moreover from o have "length (take i s) = i" "length (take n (drop i s)) = n"
    by (auto simp: occurs_def)
  ultimately show "\<exists>u h v. s = u @ h @ v \<and> length u = i \<and> length h = n \<and> matches p h"
    using o unfolding occurs_def by blast
next
  assume "\<exists>u h v. s = u @ h @ v \<and> length u = i \<and> length h = n \<and> matches p h"
  then show "occurs p s i n" by (auto simp: occurs_def)
qed

lemma occurs_inside:
  "occurs p s i n \<Longrightarrow> occurs p (w1 @ s @ w2) (length w1 + i) n"
  unfolding occurs_split
proof (elim exE conjE)
  fix u h v
  assume "s = u @ h @ v" "length u = i" "length h = n" "matches p h"
  then have "w1 @ s @ w2 = (w1 @ u) @ h @ (v @ w2) \<and> length (w1 @ u) = length w1 + i
      \<and> length h = n \<and> matches p h" by simp
  then show "\<exists>u h v. w1 @ s @ w2 = u @ h @ v \<and> length u = length w1 + i \<and> length h = n
      \<and> matches p h" by blast
qed

lemma header_free_trim: "header_free s \<Longrightarrow> header_free (trim s)"
proof -
  assume hf: "header_free s"
  from trim_decomp[of s] obtain w1 w2 where s: "s = w1 @ trim s @ w2" by blast
  show "header_free (trim s)"
    unfolding header_free_def
  proof (intro allI notI)
    fix i n assume "occurs definitionSourcePattern (trim s) i n"
    from occurs_inside[OF this, of w1 w2] s
    have "occurs definitionSourcePattern s (length w1 + i) n" by simp
    with hf show False by (simp add: header_free_def)
  qed
qed

lemma strip_step_split:
  assumes "getNextMatchBounds definitionSourcePattern d = Some (b0, b1)"
  shows "\<exists>u h v. d = u @ h @ v \<and> matches definitionSourcePattern h
           \<and> substring d 0 b0 @ substring_from d b1 = u @ v"
proof -
  from getNextMatchBounds_Some[OF assms] obtain i n where
    ab: "b0 = int i" "b1 = int (i + n)" and occ: "occurs definitionSourcePattern d i n"
    by blast
  from occ have le: "i + n \<le> length d"
    and m: "matches definitionSourcePattern (take n (drop i d))"
    by (simp_all add: occurs_def)
  have "d = take i d @ take n (drop i d) @ drop (i + n) d"
    by (rule list_cut3)
  moreover have "substring d 0 b0 @ substring_from d b1 = take i d @ drop (i + n) d"
    using ab le by (simp add: substring_take substring_from_drop nat_int_add)
  ultimately show ?thesis using m by blast
qed

lemma strip_loop_spec:
  "bs = getNextMatchBounds definitionSourcePattern d \<Longrightarrow>
     removes_headers d (strip_loop d bs) \<and> header_free (strip_loop d bs)"
proof (induction d bs rule: strip_loop.induct)
  case (1 d bs)
  show ?case
  proof (cases bs)
    case None
    with "1.prems" have "header_free d"
      by (simp add: header_free_def getNextMatchBounds_None[symmetric])
    with None show ?thesis by (simp add: rh_refl)
  next
    case (Some ab)
    obtain b0 b1 where ab: "ab = (b0, b1)" by (cases ab)
    let ?d' = "substring d 0 b0 @ substring_from d b1"
    have ih: "removes_headers ?d' (strip_loop ?d' (getNextMatchBounds definitionSourcePattern ?d'))
        \<and> header_free (strip_loop ?d' (getNextMatchBounds definitionSourcePattern ?d'))"
      by (rule "1.IH"[OF Some ab[symmetric] refl refl])
    have unfold: "strip_loop d bs
        = strip_loop ?d' (getNextMatchBounds definitionSourcePattern ?d')"
      using Some ab by (simp add: strip_loop_Some)
    from "1.prems" Some ab
    have "getNextMatchBounds definitionSourcePattern d = Some (b0, b1)" by simp
    from strip_step_split[OF this] obtain u h v where
      d: "d = u @ h @ v" and m: "matches definitionSourcePattern h" and d': "?d' = u @ v"
      by blast
    from ih d' have "removes_headers (u @ v) (strip_loop d bs)" by (simp add: unfold)
    from rh_step[OF m this] d have "removes_headers d (strip_loop d bs)" by simp
    with ih unfold show ?thesis by simp
  qed
qed

lemma headers_removed_spec:
  "removes_headers s (headers_removed s) \<and> header_free (headers_removed s)"
  unfolding headers_removed_def by (rule strip_loop_spec) simp

lemma found_marker_end:
  assumes "getNextMatchBounds definitionFoundPattern raw = Some (a, b)"
  shows "1 \<le> b \<and> b \<le> int (length raw)
         \<and> slice raw (b - 1) = 0x0A # drop (nat b) raw"
proof -
  from getNextMatchBounds_Some[OF assms] obtain i n where
    ab: "a = int i" "b = int (i + n)" and occ: "occurs definitionFoundPattern raw i n"
    by blast
  from occ have le: "i + n \<le> length raw"
    and m: "matches definitionFoundPattern (take n (drop i raw))"
    by (simp_all add: occurs_def)
  from m obtain x where x: "take n (drop i raw) = x @ js '' found\<newline>\<newline>''"
    unfolding found_marker_iff by auto
  have js: "js '' found\<newline>\<newline>'' = js '' found\<newline>'' @ [0x0A]" by (simp add: js_def)
  let ?x' = "x @ js '' found\<newline>''"
  from x js have x': "take n (drop i raw) = ?x' @ [0x0A]" by simp
  from le have n: "length (take n (drop i raw)) = n" by simp
  with x' have len: "n = Suc (length ?x')" by simp
  then have "1 \<le> n" by simp
  have "raw = take i raw @ take n (drop i raw) @ drop (i + n) raw" by (rule list_cut3)
  with x' have "raw = (take i raw @ ?x') @ (0x0A # drop (i + n) raw)" by simp
  then have "drop (length (take i raw @ ?x')) raw = 0x0A # drop (i + n) raw"
    by (metis append_eq_conv_conj)
  moreover have "length (take i raw @ ?x') = i + n - 1" using le len by simp
  ultimately have "drop (i + n - 1) raw = 0x0A # drop (i + n) raw" by simp
  moreover have "slice raw (b - 1) = drop (i + n - 1) raw"
    using ab le \<open>1 \<le> n\<close>
    by (simp add: slice_def Let_def nat_diff_distrib' min_def nat_int_add)
  ultimately show ?thesis using ab le \<open>1 \<le> n\<close> by (simp add: nat_int_add)
qed

subsection \<open>When the first trim changes nothing\<close>

lemma js_source_tail: "js '':\<newline>\<newline>'' = [0x3A, 0x0A, 0x0A]"
  by (simp add: js_def)

lemma js_source_head: "js ''From '' = [0x46, 0x72, 0x6F, 0x6D, 0x20]"
  by (simp add: js_def)

lemma no_line_break_LF: "no_line_break xs \<Longrightarrow> 0x0A \<notin> set xs"
  by (auto simp: no_line_break_def)

lemma source_marker_prefix_unique:
  assumes "matches definitionSourcePattern h" "matches definitionSourcePattern h'"
    and "prefix h h'"
  shows "h = h'"
proof -
  define T :: jsstring where "T = js '':\<newline>\<newline>''"
  have T: "T = [0x3A, 0x0A, 0x0A]" by (simp add: T_def js_def)
  from assms(1) obtain X where h: "h = js ''From '' @ X @ T" and X: "no_line_break X"
    unfolding source_marker_iff T_def by blast
  from assms(2) obtain X' where h': "h' = js ''From '' @ X' @ T" and X': "no_line_break X'"
    unfolding source_marker_iff T_def by blast
  from assms(3) obtain r where "h' = h @ r" unfolding prefix_def by blast
  with h h' have r: "X' @ T = X @ (T @ r)" by simp
  from append_eq_append_conv2[THEN iffD1, OF r] obtain us where
    us: "(X' @ us = X \<and> T = us @ (T @ r)) \<or> (X' = X @ us \<and> us @ T = T @ r)"
    by blast
  have "r = []"
  proof (rule ccontr)
    assume nr: "r \<noteq> []"
    from us show False
    proof
      assume a: "X' @ us = X \<and> T = us @ (T @ r)"
      then have "length T = length (us @ (T @ r))" by simp
      with nr show False by simp
    next
      assume a: "X' = X @ us \<and> us @ T = T @ r"
      then have "length (us @ T) = length (T @ r)" by simp
      with nr have "us \<noteq> []" by auto
      then obtain y ys where y: "us = y # ys" by (cases us) blast+
      from a have eq: "us @ T = T @ r" by blast
      show False
      proof (cases ys)
        case Nil
        from eq have "(us @ T) ! 1 = (T @ r) ! 1" by simp
        with y Nil T show False by simp
      next
        case (Cons y2 ys')
        from eq have "(us @ T) ! 1 = (T @ r) ! 1" by simp
        with y Cons T have "y2 = 0x0A" by simp
        with a y Cons have "0x0A \<in> set X'" by simp
        with no_line_break_LF[OF X'] show False by simp
      qed
    qed
  qed
  with \<open>h' = h @ r\<close> show ?thesis by simp
qed

lemma source_length_unique:
  assumes "occurs definitionSourcePattern s i n" "occurs definitionSourcePattern s i n'"
  shows "n = n'"
proof -
  from assms have le: "i + n \<le> length s" "i + n' \<le> length s"
    and m: "matches definitionSourcePattern (take n (drop i s))"
      "matches definitionSourcePattern (take n' (drop i s))"
    by (simp_all add: occurs_def)
  have len: "length (take n (drop i s)) = n" "length (take n' (drop i s)) = n'"
    using le by simp_all
  show ?thesis
  proof (cases "n \<le> n'")
    case True
    then have "prefix (take n (drop i s)) (take n' (drop i s))"
      by (simp add: take_is_prefix min_def prefix_def) (metis append_take_drop_id take_take min.absorb1)
    from source_marker_prefix_unique[OF m this] len show ?thesis by metis
  next
    case False
    then have "prefix (take n' (drop i s)) (take n (drop i s))"
      by (simp add: prefix_def) (metis append_take_drop_id take_take min.absorb1 nat_le_linear)
    from source_marker_prefix_unique[OF m(2) m(1) this] len show ?thesis by metis
  qed
qed

lemma getNextMatchBounds_source_first:
  assumes "occurs definitionSourcePattern s i n"
    and "\<forall>j<i. \<forall>m. \<not> occurs definitionSourcePattern s j m"
  shows "getNextMatchBounds definitionSourcePattern s = Some (int i, int (i + n))"
proof -
  from assms(1) have "getNextMatchBounds definitionSourcePattern s \<noteq> None"
    by (auto simp: getNextMatchBounds_None)
  then obtain a b where g: "getNextMatchBounds definitionSourcePattern s = Some (a, b)"
    by auto
  from getNextMatchBounds_Some[OF g] obtain i' n' where
    ab: "a = int i'" "b = int (i' + n')" and occ: "occurs definitionSourcePattern s i' n'"
    and first: "\<forall>j<i'. \<forall>m. \<not> occurs definitionSourcePattern s j m"
    by blast
  from assms occ first have "i' = i" by (meson linorder_neqE_nat)
  with occ assms(1) have "n' = n" by (auto dest: source_length_unique)
  with g ab \<open>i' = i\<close> show ?thesis by simp
qed

lemma white_space_not_F: "is_white_space x \<Longrightarrow> x \<noteq> 0x46"
  by (auto simp: is_white_space_def)

lemma source_marker_hd:
  assumes "matches definitionSourcePattern h"
  shows "\<exists>t. h = 0x46 # t"
proof -
  from assms obtain X where "h = js ''From '' @ X @ js '':\<newline>\<newline>''"
    using source_marker_iff[of h] by blast
  then show ?thesis by (simp add: js_source_head)
qed

lemma occurs_source_Cons:
  assumes "x \<noteq> 0x46"
  shows "occurs definitionSourcePattern (x # s) j m \<longleftrightarrow>
           (1 \<le> j \<and> occurs definitionSourcePattern s (j - 1) m)"
proof (cases j)
  case 0
  have "\<not> occurs definitionSourcePattern (x # s) 0 m"
  proof
    assume o: "occurs definitionSourcePattern (x # s) 0 m"
    then have "matches definitionSourcePattern (take m (x # s))" by (simp add: occurs_def)
    from source_marker_hd[OF this] obtain t where "take m (x # s) = 0x46 # t" by blast
    with assms show False by (cases m) auto
  qed
  with 0 show ?thesis by simp
next
  case (Suc j')
  then show ?thesis by (simp add: occurs_def)
qed

lemma occurs_source_leading:
  assumes "\<forall>x\<in>set w1. is_white_space x"
  shows "occurs definitionSourcePattern (w1 @ s) j m \<longleftrightarrow>
           (length w1 \<le> j \<and> occurs definitionSourcePattern s (j - length w1) m)"
  using assms
proof (induction w1 arbitrary: j)
  case Nil
  then show ?case by simp
next
  case (Cons x w1)
  then have "x \<noteq> 0x46" by (simp add: white_space_not_F)
  from occurs_source_Cons[OF this, of "w1 @ s" j m] Cons.IH[of "j - 1"] Cons.prems
  show ?case by auto
qed

lemma occurs_source_trailing:
  assumes "\<forall>x\<in>set w2. is_white_space x" and "ends_in_text c"
  shows "occurs definitionSourcePattern (c @ w2) j m \<longleftrightarrow> occurs definitionSourcePattern c j m"
proof
  assume "occurs definitionSourcePattern c j m"
  from occurs_inside[OF this, of "[]" w2] show "occurs definitionSourcePattern (c @ w2) j m"
    by simp
next
  assume "occurs definitionSourcePattern (c @ w2) j m"
  then obtain u h v where s: "c @ w2 = u @ h @ v" and len: "length u = j" "length h = m"
    and m: "matches definitionSourcePattern h"
    unfolding occurs_split by blast
  from m obtain X where "h = js ''From '' @ X @ js '':\<newline>\<newline>''"
    using source_marker_iff[of h] by blast
  then obtain P where P: "u @ h = P @ [0x3A, 0x0A, 0x0A]"
    by (simp add: js_source_tail)
  from s have "c @ w2 = (u @ h) @ v" by simp
  from append_eq_append_conv2[THEN iffD1, OF this] obtain us where
    us: "(c @ us = u @ h \<and> w2 = us @ v) \<or> (c = (u @ h) @ us \<and> us @ w2 = v)"
    by blast
  have "\<exists>v'. c = u @ h @ v'"
    using us
  proof
    assume "c = (u @ h) @ us \<and> us @ w2 = v"
    then show ?thesis by auto
  next
    assume a: "c @ us = u @ h \<and> w2 = us @ v"
    with assms(1) have ws: "\<forall>x\<in>set us. is_white_space x" by auto
    have nws: "\<not> is_white_space 0x3A" by (simp add: is_white_space_def)
    have lf: "is_white_space 0x0A" by (simp add: is_white_space_def)
    from a P have eq: "c @ us = P @ [0x3A, 0x0A, 0x0A]" by simp
    show ?thesis
    proof (cases us rule: rev_cases)
      case Nil
      with a show ?thesis by auto
    next
      case (snoc us1 z1)
      with eq have "(c @ us1) @ [z1] = (P @ [0x3A, 0x0A]) @ [0x0A]" by simp
      then have e1: "c @ us1 = P @ [0x3A, 0x0A]" by (simp only: append1_eq_conv)
      show ?thesis
      proof (cases us1 rule: rev_cases)
        case Nil
        with e1 have "c = P @ [0x3A, 0x0A]" by simp
        then have "c \<noteq> []" "last c = 0x0A" by simp_all
        with assms(2) lf show ?thesis by (simp add: ends_in_text_def)
      next
        case (snoc us2 z2)
        with e1 have "(c @ us2) @ [z2] = (P @ [0x3A]) @ [0x0A]" by simp
        then have e2: "c @ us2 = P @ [0x3A]" by (simp only: append1_eq_conv)
        show ?thesis
        proof (cases us2 rule: rev_cases)
          case Nil
          with e2 have "c = P @ [0x3A]" by simp
          then have "c \<noteq> []" "last c = 0x3A" by simp_all
          with assms(2) show ?thesis by (simp add: ends_in_text_def)
        next
          case (snoc us3 z3)
          with e2 have "(c @ us3) @ [z3] = P @ [0x3A]" by simp
          then have "z3 = 0x3A" by (simp only: append1_eq_conv)
          with snoc \<open>us1 = us2 @ [z2]\<close> \<open>us = us1 @ [z1]\<close> have "0x3A \<in> set us" by simp
          with ws nws show ?thesis by blast
        qed
      qed
    qed
  qed
  then obtain v' where "c = u @ h @ v'" by blast
  with len m show "occurs definitionSourcePattern c j m"
    unfolding occurs_split by blast
qed

lemma occurs_source_padding:
  assumes "\<forall>x\<in>set w1. is_white_space x" "\<forall>x\<in>set w2. is_white_space x" "ends_in_text c"
  shows "occurs definitionSourcePattern (w1 @ c @ w2) j m \<longleftrightarrow>
           (length w1 \<le> j \<and> occurs definitionSourcePattern c (j - length w1) m)"
  using occurs_source_leading[OF assms(1), of "c @ w2" j m]
    occurs_source_trailing[OF assms(2,3), of "j - length w1" m]
  by simp

lemma trim_unique:
  assumes "\<forall>x\<in>set w1. is_white_space x" "\<forall>x\<in>set w2. is_white_space x"
    and "t = [] \<or> (\<not> is_white_space (hd t) \<and> \<not> is_white_space (last t))"
  shows "trim (w1 @ t @ w2) = t"
proof (cases "t = []")
  case True
  have "dropWhile is_white_space (w1 @ t @ w2) = []"
    unfolding dropWhile_eq_Nil_conv using assms(1,2) True by auto
  then have "trim (w1 @ t @ w2) = []" unfolding trim_def by (simp only:) simp
  with True show ?thesis by (simp only:)
next
  case False
  with assms(3) have h: "\<not> is_white_space (hd t)" and l: "\<not> is_white_space (last t)" by auto
  from False h have "dropWhile is_white_space (t @ w2) = t @ w2" by (cases t) auto
  moreover have "dropWhile is_white_space (w1 @ t @ w2) = dropWhile is_white_space (t @ w2)"
    using assms(1) by (intro dropWhile_append2) simp
  ultimately have 1: "dropWhile is_white_space (w1 @ t @ w2) = t @ w2"
    by simp
  from False l have "\<not> is_white_space (hd (rev t))" by (simp add: hd_rev)
  with False have "dropWhile is_white_space (rev t) = rev t" by (cases "rev t") auto
  moreover have "dropWhile is_white_space (rev w2 @ rev t) = dropWhile is_white_space (rev t)"
    using assms(2) by (intro dropWhile_append2) simp
  ultimately have 2: "dropWhile is_white_space (rev (t @ w2)) = rev t"
    by simp
  from 1 2 show ?thesis by (simp add: trim_def)
qed

lemma trim_padding:
  assumes "\<forall>x\<in>set w1. is_white_space x" "\<forall>x\<in>set w2. is_white_space x"
  shows "trim (w1 @ s @ w2) = trim s"
proof -
  from trim_decomp[of s] obtain v1 v2 where s: "s = v1 @ trim s @ v2"
    and v: "\<forall>x\<in>set v1. is_white_space x" "\<forall>x\<in>set v2. is_white_space x"
    by blast
  have 1: "trim ((w1 @ v1) @ trim s @ (v2 @ w2)) = trim s"
    using assms v by (intro trim_unique trim_ends) auto
  from s have "w1 @ s @ w2 = w1 @ (v1 @ trim s @ v2) @ w2"
    by (rule arg_cong[of _ _ "\<lambda>z. w1 @ z @ w2"])
  also have "\<dots> = (w1 @ v1) @ trim s @ (v2 @ w2)" by simp
  finally show ?thesis using 1 by (simp only:)
qed

lemma headers_removed_None:
  "getNextMatchBounds definitionSourcePattern s = None \<Longrightarrow> headers_removed s = s"
  by (simp add: headers_removed_def)

lemma headers_removed_Some:
  assumes "occurs definitionSourcePattern s i n"
    and "\<forall>j<i. \<forall>m. \<not> occurs definitionSourcePattern s j m"
  shows "headers_removed s = headers_removed (take i s @ drop (i + n) s)"
proof -
  from assms(1) have le: "i + n \<le> length s" by (simp add: occurs_def)
  from getNextMatchBounds_source_first[OF assms]
  have g: "getNextMatchBounds definitionSourcePattern s = Some (int i, int (i + n))" .
  have "substring s 0 (int i) @ substring_from s (int (i + n)) = take i s @ drop (i + n) s"
    using le by (simp add: substring_take substring_from_drop nat_int_add)
  with g show ?thesis
    by (simp add: headers_removed_def strip_loop_Some)
qed

lemma headers_removed_padding:
  assumes "\<forall>x\<in>set w1. is_white_space x" "\<forall>x\<in>set w2. is_white_space x" "ends_in_text c"
  shows "headers_removed (w1 @ c @ w2) = w1 @ headers_removed c @ w2"
  using assms(3)
proof (induction "length c" arbitrary: c rule: less_induct)
  case less
  let ?k = "length w1"
  note pad = occurs_source_padding[OF assms(1,2) less.prems]
  show ?case
  proof (cases "getNextMatchBounds definitionSourcePattern c")
    case None
    then have "\<forall>j m. \<not> occurs definitionSourcePattern c j m"
      by (simp add: getNextMatchBounds_None)
    with pad have "\<forall>j m. \<not> occurs definitionSourcePattern (w1 @ c @ w2) j m" by blast
    then have "getNextMatchBounds definitionSourcePattern (w1 @ c @ w2) = None"
      by (simp add: getNextMatchBounds_None)
    with None show ?thesis by (simp add: headers_removed_None)
  next
    case (Some ab)
    obtain a b where ab: "ab = (a, b)" by (cases ab)
    from getNextMatchBounds_Some[of definitionSourcePattern c a b] Some ab obtain i n where
      occ: "occurs definitionSourcePattern c i n"
      and first: "\<forall>j<i. \<forall>m. \<not> occurs definitionSourcePattern c j m"
      by auto
    from occ have le: "i + n \<le> length c"
      and m: "matches definitionSourcePattern (take n (drop i c))"
      by (simp_all add: occurs_def)
    from matches_min_len[OF m] le have n9: "9 \<le> n" by (simp add: min_len_source)
    let ?c' = "take i c @ drop (i + n) c"
    have c: "headers_removed c = headers_removed ?c'"
      by (rule headers_removed_Some[OF occ first])
    from occ pad[of "i + ?k" n] have o': "occurs definitionSourcePattern (w1 @ c @ w2) (i + ?k) n"
      by simp
    have f': "\<forall>j<i + ?k. \<forall>m. \<not> occurs definitionSourcePattern (w1 @ c @ w2) j m"
    proof (intro allI impI)
      fix j m assume "j < i + ?k"
      show "\<not> occurs definitionSourcePattern (w1 @ c @ w2) j m"
      proof (cases "?k \<le> j")
        case True
        with \<open>j < i + ?k\<close> have "j - ?k < i" by simp
        with first pad[of j m] show ?thesis by blast
      next
        case False
        with pad[of j m] show ?thesis by blast
      qed
    qed
    have "take (i + ?k) (w1 @ c @ w2) @ drop (i + ?k + n) (w1 @ c @ w2) = w1 @ ?c' @ w2"
      using le by (simp add: add.commute add.left_commute)
    with headers_removed_Some[OF o' f']
    have w: "headers_removed (w1 @ c @ w2) = headers_removed (w1 @ ?c' @ w2)" by simp
    have shorter: "length ?c' < length c" using le n9 by simp
    have "ends_in_text ?c'"
    proof -
      from le n9 have cne: "c \<noteq> []" by auto
      with less.prems have lc: "\<not> is_white_space (last c)" "last c \<noteq> 0x3A"
        by (simp_all add: ends_in_text_def)
      have "i + n \<noteq> length c"
      proof
        assume e: "i + n = length c"
        then have "take n (drop i c) = drop i c" by simp
        with m obtain X where "drop i c = js ''From '' @ X @ js '':\<newline>\<newline>''"
          using source_marker_iff[of "drop i c"] by auto
        then have "drop i c \<noteq> []" "last (drop i c) = 0x0A" by (simp_all add: js_source_tail)
        then have "last c = 0x0A" by (metis append_take_drop_id last_appendR)
        with lc(1) show False by (simp add: is_white_space_def)
      qed
      with le have "drop (i + n) c \<noteq> []" by simp
      then have "?c' \<noteq> []" "last ?c' = last c"
        by (simp_all add: last_drop)
      with lc show ?thesis by (simp add: ends_in_text_def)
    qed
    from less.hyps[OF shorter this] c w show ?thesis by simp
  qed
qed

lemma headers_removed_trim:
  assumes "trim s = [] \<or> last (trim s) \<noteq> 0x3A"
  shows "trim (headers_removed (trim s)) = trim (headers_removed s)"
proof -
  from trim_decomp[of s] obtain w1 w2 where s: "s = w1 @ trim s @ w2"
    and w: "\<forall>x\<in>set w1. is_white_space x" "\<forall>x\<in>set w2. is_white_space x"
    by blast
  from assms trim_ends[of s] have "ends_in_text (trim s)"
    by (auto simp: ends_in_text_def)
  from s have "headers_removed s = headers_removed (w1 @ trim s @ w2)"
    by (rule arg_cong)
  also have "\<dots> = w1 @ headers_removed (trim s) @ w2"
    by (rule headers_removed_padding[OF w \<open>ends_in_text (trim s)\<close>])
  finally show ?thesis using trim_padding[OF w] by (simp only:)
qed

lemma tryParseDefinitions_Some:
  assumes "getNextMatchBounds definitionFoundPattern raw = Some (a, b)"
  shows "tryParseDefinitions raw = Some (trim (headers_removed (trim (drop (nat b) raw))))"
proof -
  from found_marker_end[OF assms]
  have "slice raw (b - 1) = 0x0A # drop (nat b) raw" by simp
  moreover have "is_white_space 0x0A" by (simp add: is_white_space_def)
  ultimately have "trim (slice raw (b - 1)) = trim (drop (nat b) raw)"
    by (simp add: trim_Cons_space)
  with assms show ?thesis
    by (simp add: tryParseDefinitions_def headers_removed_def Let_def)
qed

lemma scenario_A_bounds: "getNextMatchBounds definitionFoundPattern scenario_A = Some (0, 20)"
  by code_simp

lemma scenario_A_parse:
  "tryParseDefinitions scenario_A = Some (js ''cat: a small domestic animal'')"
  by code_simp

text \<open>
  What \<open>tryParseDefinitions\<close> returns when the pattern of the definitions is found, with
  \<open>b\<close> the end of its first occurrence. On every such output the string returned is the
  trimmed text after the occurrence with every header removed exhaustively, trimmed
  again. When the text after the occurrence does not stop on a colon (trimmed, it is
  empty or does not end in a colon), the first trim changes nothing: the string is the
  text after the occurrence with every header removed exhaustively and the result
  trimmed. For the output of scenario A the definition is
  \<^verbatim>\<open>cat: a small domestic animal\<close>.
\<close>

lemma tryParseDefinitions_found:
  "(getNextMatchBounds definitionFoundPattern raw = Some (a, b)
      \<and> (trim (drop (nat b) raw) = [] \<or> last (trim (drop (nat b) raw)) \<noteq> 0x3A) \<longrightarrow>
      tryParseDefinitions raw = Some (trim (headers_removed (drop (nat b) raw)))
      \<and> removes_headers (drop (nat b) raw) (headers_removed (drop (nat b) raw))
      \<and> header_free (headers_removed (drop (nat b) raw))
      \<and> header_free (trim (headers_removed (drop (nat b) raw))))
   \<and> (getNextMatchBounds definitionFoundPattern raw = Some (a, b) \<longrightarrow>
      tryParseDefinitions raw = Some (trim (headers_removed (trim (drop (nat b) raw))))
      \<and> removes_headers (trim (drop (nat b) raw)) (headers_removed (trim (drop (nat b) raw)))
      \<and> header_free (trim (headers_removed (trim (drop (nat b) raw)))))
   \<and> tryParseDefinitions scenario_A = Some (js ''cat: a small domestic animal'')"
proof (intro conjI impI)
  assume a: "getNextMatchBounds definitionFoundPattern raw = Some (a, b)
      \<and> (trim (drop (nat b) raw) = [] \<or> last (trim (drop (nat b) raw)) \<noteq> 0x3A)"
  then have "trim (headers_removed (trim (drop (nat b) raw)))
      = trim (headers_removed (drop (nat b) raw))"
    by (intro headers_removed_trim) blast
  with a tryParseDefinitions_Some[of raw a b]
  show "tryParseDefinitions raw = Some (trim (headers_removed (drop (nat b) raw)))"
    by simp
  show "removes_headers (drop (nat b) raw) (headers_removed (drop (nat b) raw))"
    using headers_removed_spec by blast
  show "header_free (headers_removed (drop (nat b) raw))"
    using headers_removed_spec by blast
  then show "header_free (trim (headers_removed (drop (nat b) raw)))"
    by (rule header_free_trim)
next
  assume a: "getNextMatchBounds definitionFoundPattern raw = Some (a, b)"
  show "tryParseDefinitions raw = Some (trim (headers_removed (trim (drop (nat b) raw))))"
    by (rule tryParseDefinitions_Some[OF a])
  show "removes_headers (trim (drop (nat b) raw)) (headers_removed (trim (drop (nat b) raw)))"
    using headers_removed_spec by blast
  show "header_free (trim (headers_removed (trim (drop (nat b) raw))))"
    using headers_removed_spec header_free_trim by blast
next
  show "tryParseDefinitions scenario_A = Some (js ''cat: a small domestic animal'')"
    by (rule scenario_A_parse)
qed

text \<open>
  C1. The definition is meant to be the text after the first occurrence of the marker
  with every header removed exhaustively and the result trimmed, and the loop of
  \<open>tryParseDefinitions\<close> is there to remove every header. It misses a header at the very
  end of the output: the text is trimmed before the loop, the header loses the blank
  line that the pattern \<^verbatim>\<open>From .+:\n\n\<close> asks for, and the loop no longer finds it. For
  the output \<^verbatim>\<open>1 definition found\n\nFrom A:\n\ncat\n\nFrom B:\n\n\<close> the marker ends at 20,
  the pattern of the header is found in \<^verbatim>\<open>cat\n\nFrom B:\n\n\<close> and not in
  \<^verbatim>\<open>cat\n\nFrom B:\<close>, the text after the marker with every header removed and the
  result trimmed is \<^verbatim>\<open>cat\<close>, and the definition returned is \<^verbatim>\<open>cat\n\nFrom B:\<close>. For an
  output that is the marker and one header, the definition returned is the header,
  \<^verbatim>\<open>From Test Dict:\<close>, where the text with every header removed is empty.
\<close>

theorem tryParseDefinitions_trailing_header:
  "getNextMatchBounds definitionFoundPattern trailing_source = Some (0, 20)
   \<and> getNextMatchBounds definitionSourcePattern (js ''cat\<newline>\<newline>From B:\<newline>\<newline>'') = Some (5, 14)
   \<and> getNextMatchBounds definitionSourcePattern (js ''cat\<newline>\<newline>From B:'') = None
   \<and> trim (headers_removed (drop (nat 20) trailing_source)) = js ''cat''
   \<and> tryParseDefinitions trailing_source = Some (js ''cat\<newline>\<newline>From B:'')
   \<and> tryParseDefinitions trailing_source
       \<noteq> Some (trim (headers_removed (drop (nat 20) trailing_source)))
   \<and> trim (headers_removed (drop (nat 20) header_only)) = []
   \<and> tryParseDefinitions header_only = Some (js ''From Test Dict:'')"
  by code_simp

lemma found_marker_nonempty:
  "occurs definitionFoundPattern raw i n \<Longrightarrow> raw \<noteq> []"
  using matches_min_len[of definitionFoundPattern "take n (drop i raw)"]
  by (auto simp: occurs_def min_len_found)

lemma addWordEntry_Entry:
  assumes "fst (getDictionaryResult st execSync word w) = Some raw" "raw \<noteq> []"
    and "tryParseDefinitions raw = Some d"
  shows "\<exists>r. fst (addWordEntry st execSync word w)
           = Entry (wordDir st @ js ''/'' @ word @ js ''.md'') d r"
  using assms by (simp add: addWordEntry_def split_beta Let_def)

text \<open>
  C2, as the code has it. For every output in which the pattern of the definitions
  occurs, \<open>tryParseDefinitions\<close> returns a string, never \<^verbatim>\<open>null\<close>, also when nothing
  is left after the headers are removed and the text is trimmed; \<open>addWordEntry\<close> then
  requests the note with that string as its text. The string has no white space at
  either end (trimming it again changes nothing), and it may be empty.
\<close>

theorem tryParseDefinitions_marker_always_found:
  "occurs definitionFoundPattern raw i n \<longrightarrow>
     (\<exists>d. tryParseDefinitions raw = Some d \<and> trim d = d
        \<and> (fst (getDictionaryResult st execSync word w) = Some raw \<longrightarrow>
             (\<exists>r. fst (addWordEntry st execSync word w)
                = Entry (wordDir st @ js ''/'' @ word @ js ''.md'') d r)))"
proof
  assume occ: "occurs definitionFoundPattern raw i n"
  then have "getNextMatchBounds definitionFoundPattern raw \<noteq> None"
    by (auto simp: getNextMatchBounds_None)
  then obtain a b where "getNextMatchBounds definitionFoundPattern raw = Some (a, b)"
    by auto
  from tryParseDefinitions_Some[OF this] obtain d where
    d: "tryParseDefinitions raw = Some d" "d = trim (headers_removed (trim (drop (nat b) raw)))"
    by blast
  from d(2) have "trim d = d" by (simp add: trim_idem)
  with d(1) addWordEntry_Entry[of st execSync word w raw d]
    found_marker_nonempty[OF occ]
  show "\<exists>d. tryParseDefinitions raw = Some d \<and> trim d = d
        \<and> (fst (getDictionaryResult st execSync word w) = Some raw \<longrightarrow>
             (\<exists>r. fst (addWordEntry st execSync word w)
                = Entry (wordDir st @ js ''/'' @ word @ js ''.md'') d r))"
    by blast
qed

lemma empty_body_parse:
  "tryParseDefinitions empty_body = Some []"
  "getNextMatchBounds definitionFoundPattern empty_body = Some (0, 20)"
  by code_simp+

lemma empty_body_lookup:
  "fst (addWordEntry DEFAULT_SETTINGS (\<lambda>c. Exited 0 empty_body []) (js ''cat'')
          empty_world) = Entry (js ''words/cat.md'') [] WriteStarted"
  "files (writeFile_callback 0 WriteOk
       (snd (addWordEntry DEFAULT_SETTINGS (\<lambda>c. Exited 0 empty_body []) (js ''cat'')
          empty_world))) (js ''words/cat.md'') = Some []"
  by code_simp+

text \<open>
  An output that is the marker alone is not refused: the definition found is the empty
  string, the note is requested, and its write leaves a file with no text.
\<close>

theorem tryParseDefinitions_empty_body_counterexample:
  "getNextMatchBounds definitionFoundPattern empty_body = Some (0, 20)
   \<and> tryParseDefinitions empty_body = Some []
   \<and> fst (addWordEntry DEFAULT_SETTINGS (\<lambda>c. Exited 0 empty_body []) (js ''cat'')
          empty_world) = Entry (js ''words/cat.md'') [] WriteStarted
   \<and> files (writeFile_callback 0 WriteOk
          (snd (addWordEntry DEFAULT_SETTINGS (\<lambda>c. Exited 0 empty_body []) (js ''cat'')
             empty_world))) (js ''words/cat.md'') = Some []"
  using empty_body_parse empty_body_lookup by simp

theorem tryParseDefinitions_marker_always_found_witness:
  "occurs definitionFoundPattern scenario_A 0 20
   \<and> (\<exists>d. tryParseDefinitions scenario_A = Some d \<and> trim d = d
        \<and> (\<exists>r. fst (addWordEntry DEFAULT_SETTINGS (\<lambda>c. Exited 0 scenario_A [])
                      (js ''cat'') empty_world) = Entry (js ''words/cat.md'') d r))"
proof -
  from getNextMatchBounds_Some[OF scenario_A_bounds]
  have occ: "occurs definitionFoundPattern scenario_A 0 20" by auto
  have out: "fst (getDictionaryResult DEFAULT_SETTINGS (\<lambda>c. Exited 0 scenario_A [])
               (js ''cat'') empty_world) = Some scenario_A"
    by (simp add: getDictionaryResult_fst)
  have path: "wordDir DEFAULT_SETTINGS @ js ''/'' @ js ''cat'' @ js ''.md'' = js ''words/cat.md''"
    by (simp add: DEFAULT_SETTINGS_def js_def)
  from tryParseDefinitions_marker_always_found[of scenario_A 0 20 DEFAULT_SETTINGS
      "\<lambda>c. Exited 0 scenario_A []" "js ''cat''" empty_world] occ out path
  show ?thesis by simp
qed

subsection \<open>The suggestions\<close>

lemma join_Cons: "xs \<noteq> [] \<Longrightarrow> join sep (x # xs) = x @ sep @ join sep xs"
  by (cases xs) auto

lemma split_at_join: "sep \<noteq> [] \<Longrightarrow> join sep (split_at sep cur s) = cur @ s"
proof (induction sep cur s rule: split_at.induct)
  case (1 sep cur)
  then show ?case by simp
next
  case (2 sep cur c cs)
  show ?case
  proof (cases "prefix sep (c # cs)")
    case True
    then obtain r where r: "c # cs = sep @ r" by (auto simp: prefix_def)
    with "2.prems" obtain sep' where sep': "sep = c # sep'" by (cases sep) auto
    with r have cs: "cs = sep' @ r" by simp
    from sep' have "length sep - 1 = length sep'" by simp
    with cs have d: "drop (length sep - 1) cs = r" by simp
    from "2.IH"(1)[OF True "2.prems"] d
    have ih: "join sep (split_at sep [] r) = r" by simp
    have "split_at sep cur (c # cs) = cur # split_at sep [] r"
      using True d by simp
    then have "join sep (split_at sep cur (c # cs)) = cur @ sep @ join sep (split_at sep [] r)"
      by (simp only: join_Cons[OF split_at_nonempty])
    also have "\<dots> = cur @ c # cs" using ih r by simp
    finally show ?thesis .
  next
    case False
    with "2.IH"(2)[OF False "2.prems"] show ?thesis by simp
  qed
qed

lemma split_join: "sep \<noteq> [] \<Longrightarrow> join sep (split s sep) = s"
  by (simp add: split_def split_at_join)

lemma split_at_pieces:
  assumes "sep \<noteq> []"
    and "\<forall>k<length cur. \<not> prefix sep (drop k (cur @ s))"
    and "piece \<in> set (split_at sep cur s)"
  shows "\<not> includes_str piece sep"
  using assms
proof (induction sep cur s rule: split_at.induct)
  case (1 sep cur)
  then have piece: "piece = cur" by simp
  show ?case
  proof
    assume "includes_str piece sep"
    then obtain a b where ab: "cur = a @ sep @ b" by (auto simp: includes_str_iff piece)
    with "1.prems"(1) have "length a < length cur" by (cases sep) auto
    moreover from ab have "prefix sep (drop (length a) (cur @ []))" by simp
    ultimately show False using "1.prems"(2) by blast
  qed
next
  case (2 sep cur c cs)
  show ?case
  proof (cases "prefix sep (c # cs)")
    case True
    with "2.prems"(3) consider "piece = cur"
      | "piece \<in> set (split_at sep [] (drop (length sep - 1) cs))" by auto
    then show ?thesis
    proof cases
      case 1
      show ?thesis
      proof
        assume "includes_str piece sep"
        then obtain a b where ab: "cur = a @ sep @ b" by (auto simp: includes_str_iff 1)
        with "2.prems"(1) have "length a < length cur" by (cases sep) auto
        moreover from ab have "prefix sep (drop (length a) (cur @ c # cs))" by simp
        ultimately show False using "2.prems"(2) by blast
      qed
    next
      case 2
      show ?thesis
        by (rule "2.IH"(1)[OF True "2.prems"(1) _ 2]) simp
    qed
  next
    case False
    with "2.prems"(3) have in': "piece \<in> set (split_at sep (cur @ [c]) cs)" by simp
    have "\<not> prefix sep (drop k ((cur @ [c]) @ cs))" if "k < length (cur @ [c])" for k
    proof (cases "k < length cur")
      case True
      with "2.prems"(2) show ?thesis by simp
    next
      case False
      with that have "k = length cur" by simp
      with \<open>\<not> prefix sep (c # cs)\<close> show ?thesis by simp
    qed
    then show ?thesis
      by (intro "2.IH"(2)[OF False "2.prems"(1) _ in']) blast
  qed
qed

lemma split_pieces:
  "sep \<noteq> [] \<Longrightarrow> piece \<in> set (split s sep) \<Longrightarrow> \<not> includes_str piece sep"
  using split_at_pieces[of sep "[]" s piece] by (simp add: split_def)

lemma tryParseWordSuggestions_Some:
  assumes "getNextMatchBounds noDefinitionPattern raw = Some (a, b)"
  shows "tryParseWordSuggestions raw = Some (split (drop (nat b) raw) (js ''  ''))"
proof -
  from getNextMatchBounds_Some[OF assms] have "0 \<le> b" "b \<le> int (length raw)"
    by (auto simp: occurs_def)
  then have "slice raw b = drop (nat b) raw" by (simp add: slice_def Let_def min_def)
  with assms show ?thesis by (simp add: tryParseWordSuggestions_def Let_def)
qed

text \<open>
  C3, as the code has it. For every output in which the pattern of the missing definition
  is found (the words \<^verbatim>\<open>No definitions found for\<close>, the term in double quotes,
  \<^verbatim>\<open>, perhaps you mean:\<close>, a line break, then the name of a source followed by a colon
  and two spaces), \<open>tryParseWordSuggestions\<close> returns the text after the first
  occurrence split at the double spaces: the pieces joined by two spaces give that text
  back, no piece has two spaces in a row, and there is at least one piece. When the
  pattern of the definitions is not found in the same output, \<open>addWordEntry\<close> opens the
  picker on these pieces. For the output
  \<^verbatim>\<open>No definitions found for "catt", perhaps you mean:\nwn:  cat  catty  category  \<close>
  the suggestions are \<^verbatim>\<open>cat\<close>, \<^verbatim>\<open>catty\<close>, \<^verbatim>\<open>category\<close> and the empty string: the piece
  after the last two spaces is kept.
\<close>

theorem tryParseWordSuggestions_split:
  "(getNextMatchBounds noDefinitionPattern raw = Some (a, b) \<longrightarrow>
      tryParseWordSuggestions raw = Some (split (drop (nat b) raw) (js ''  ''))
      \<and> join (js ''  '') (split (drop (nat b) raw) (js ''  '')) = drop (nat b) raw
      \<and> (\<forall>piece\<in>set (split (drop (nat b) raw) (js ''  '')). \<not> includes_str piece (js ''  ''))
      \<and> 1 \<le> length (split (drop (nat b) raw) (js ''  ''))
      \<and> (\<exists>term srcs. substring raw a b
            = js ''No definitions found for \"'' @ term @ js ''\", perhaps you mean:\<newline>''
                @ srcs @ js '':  ''
            \<and> no_line_break term \<and> no_line_break srcs)
      \<and> (fst (getDictionaryResult st execSync word w) = Some raw
           \<and> tryParseDefinitions raw = None \<longrightarrow>
         fst (addWordEntry st execSync word w)
           = DidYouMean (split (drop (nat b) raw) (js ''  ''))))
   \<and> tryParseWordSuggestions not_found_output
       = Some [js ''cat'', js ''catty'', js ''category'', []]"
proof (intro conjI impI)
  assume g: "getNextMatchBounds noDefinitionPattern raw = Some (a, b)"
  let ?l = "split (drop (nat b) raw) (js ''  '')"
  show p: "tryParseWordSuggestions raw = Some ?l" by (rule tryParseWordSuggestions_Some[OF g])
  show "join (js ''  '') ?l = drop (nat b) raw" by (rule split_join[OF js_two_spaces])
  show "\<forall>piece\<in>set ?l. \<not> includes_str piece (js ''  '')"
    using split_pieces[OF js_two_spaces] by blast
  show "1 \<le> length ?l" by (rule tryParseWordSuggestions_length[OF p])
  from getNextMatchBounds_Some[OF g] obtain i n where
    ab: "a = int i" "b = int (i + n)" and occ: "occurs noDefinitionPattern raw i n"
    by blast
  from occurs_substring[OF occ] ab occ
  have "matches noDefinitionPattern (substring raw a b)" by (simp add: occurs_def)
  then show "\<exists>term srcs. substring raw a b
            = js ''No definitions found for \"'' @ term @ js ''\", perhaps you mean:\<newline>''
                @ srcs @ js '':  ''
            \<and> no_line_break term \<and> no_line_break srcs"
    by (simp add: no_definition_marker_iff)
  show "fst (addWordEntry st execSync word w) = DidYouMean ?l"
    if "fst (getDictionaryResult st execSync word w) = Some raw
           \<and> tryParseDefinitions raw = None"
    using that p by (intro addWordEntry_suggestions) auto
next
  show "tryParseWordSuggestions not_found_output
       = Some [js ''cat'', js ''catty'', js ''category'', []]"
    by (rule not_found_output_parse(2))
qed

lemma not_found_output_bounds:
  "getNextMatchBounds noDefinitionPattern not_found_output = Some (0, 56)"
  by code_simp

theorem tryParseWordSuggestions_split_witness:
  "getNextMatchBounds noDefinitionPattern not_found_output = Some (0, 56)
   \<and> tryParseWordSuggestions not_found_output
       = Some (split (drop (nat 56) not_found_output) (js ''  ''))
   \<and> split (drop (nat 56) not_found_output) (js ''  '')
       = [js ''cat'', js ''catty'', js ''category'', []]
   \<and> join (js ''  '') [js ''cat'', js ''catty'', js ''category'', []]
       = drop (nat 56) not_found_output
   \<and> fst (addWordEntry DEFAULT_SETTINGS (\<lambda>c. Exited 21 [] not_found_output)
          (js ''catt'') empty_world)
       = DidYouMean [js ''cat'', js ''catty'', js ''category'', []]"
proof -
  have out: "fst (getDictionaryResult DEFAULT_SETTINGS (\<lambda>c. Exited 21 [] not_found_output)
               (js ''catt'') empty_world) = Some not_found_output"
    by (simp add: getDictionaryResult_fst)
  from tryParseWordSuggestions_split[of not_found_output 0 56 DEFAULT_SETTINGS
      "\<lambda>c. Exited 21 [] not_found_output" "js ''catt''" empty_world]
    not_found_output_bounds
  have 1: "tryParseWordSuggestions not_found_output
             = Some (split (drop (nat 56) not_found_output) (js ''  ''))"
    and 2: "join (js ''  '') (split (drop (nat 56) not_found_output) (js ''  ''))
             = drop (nat 56) not_found_output"
    and 3: "fst (getDictionaryResult DEFAULT_SETTINGS (\<lambda>c. Exited 21 [] not_found_output)
                   (js ''catt'') empty_world) = Some not_found_output
           \<and> tryParseDefinitions not_found_output = None \<longrightarrow>
         fst (addWordEntry DEFAULT_SETTINGS (\<lambda>c. Exited 21 [] not_found_output)
                (js ''catt'') empty_world)
           = DidYouMean (split (drop (nat 56) not_found_output) (js ''  ''))"
    by simp_all
  from 1 not_found_output_parse(2)
  have 4: "split (drop (nat 56) not_found_output) (js ''  '')
             = [js ''cat'', js ''catty'', js ''category'', []]" by simp
  from 1 2 3 4 out not_found_output_parse(1) not_found_output_bounds show ?thesis by simp
qed

text \<open>
  In scenario B the suggestions follow the line break at once, with no source name and
  colon before the first two spaces. The pattern \<^verbatim>\<open>.+:  \<close> finds no colon on that line,
  \<open>tryParseWordSuggestions\<close> returns \<^verbatim>\<open>null\<close> and the lookup ends with no suggestions.
\<close>

theorem tryParseWordSuggestions_scenario_B_counterexample:
  "getNextMatchBounds noDefinitionPattern scenario_B = None
   \<and> tryParseWordSuggestions scenario_B = None
   \<and> tryParseWordSuggestions scenario_B \<noteq> Some [js ''cat'', js ''catty'', js ''category'', []]
   \<and> fst (addWordEntry DEFAULT_SETTINGS (\<lambda>c. Exited 21 [] scenario_B) (js ''catt'')
          empty_world) = NoSuggestions"
  by code_simp

end
